theory Spec2Isabelle
  imports Complex_Main "HOL-Library.Multiset"
begin

section \<open>The WBTC airdrop bot (wbtc\_airdrop\_bot.py)\<close>

text \<open>
  A shallow embedding of the class \<^verbatim>\<open>WBTCAirdropBot\<close>: the holder scan
  (\<^verbatim>\<open>get_token_holders\<close>), the eligibility filter, the proportional distribution, the
  transfer loop of one cycle and the repetition of cycles.

  Conventions of the embedding.
  \<^item> Python's \<^verbatim>\<open>float\<close> amounts are idealised as \<^typ>\<open>real\<close>: arithmetic is exact, and
    there is neither NaN, infinity nor overflow. Division keeps Python's behaviour at a zero
    divisor: it raises \<^verbatim>\<open>ZeroDivisionError\<close>. Where a claim depends on the rounding of
    float addition, the loop in question is given a second time with the addition as a
    parameter, and binary64 addition is defined for it.
  \<^item> A \<^verbatim>\<open>Dict[str, float]\<close> is an association list in insertion order with distinct
    keys, as a Python dict iterates in insertion order.
  \<^item> An exception is a value of \<open>py_error\<close>; a function that can raise returns
    \<open>py_error + 'a\<close>, with \<open>Inl\<close> for the exception.
  \<^item> The ledger is outside the program. The RPC response of a scan is an argument of the
    cycle, and the transfer capability \<^verbatim>\<open>send_wbtc_airdrop\<close> is an argument that
    answers each request from the transfers attempted so far, the recipient and the amount.
    The list of attempted transfers is threaded through the cycle.
  \<^item> Logging and the measured wall-clock duration are left out: on wallets that are
    strings, as the annotations of the source declare, the log statements cannot raise.
\<close>

subsection \<open>Exceptions and dictionaries\<close>

datatype py_error = KeyError | TypeError | ValueError | ZeroDivisionError

type_synonym holders = "(string \<times> real) list"

text \<open>\<^verbatim>\<open>owner in holders\<close>\<close>

definition dict_has :: "holders \<Rightarrow> string \<Rightarrow> bool" where
  "dict_has d k = (k \<in> set (map fst d))"

text \<open>\<^verbatim>\<open>holders[owner] += token_amount\<close> on a key that is present: the entry keeps its place.\<close>

fun dict_iadd :: "holders \<Rightarrow> string \<Rightarrow> real \<Rightarrow> holders" where
  "dict_iadd [] k v = []"
| "dict_iadd ((k', x) # d) k v =
     (if k' = k then (k', x + v) # d else (k', x) # dict_iadd d k v)"

text \<open>\<^verbatim>\<open>holders[owner] = token_amount\<close> on a new key: the entry goes last.\<close>

definition dict_insert :: "holders \<Rightarrow> string \<Rightarrow> real \<Rightarrow> holders" where
  "dict_insert d k v = d @ [(k, v)]"

text \<open>\<^verbatim>\<open>sum(d.values())\<close>\<close>

definition sum_values :: "holders \<Rightarrow> real" where
  "sum_values d = sum_list (map snd d)"

subsection \<open>Raw account records\<close>

text \<open>
  One element of \<^verbatim>\<open>response['result']['value']\<close>, as far as the loop body reads it.
  \<open>NoInfo\<close>: a key on the path \<^verbatim>\<open>account['account']['data']['parsed']['info']\<close> is
  absent (\<^verbatim>\<open>KeyError\<close>). \<open>BadShape\<close>: a value on that path is no dict
  (\<^verbatim>\<open>TypeError\<close>). Otherwise the record has the owner, if the key \<^verbatim>\<open>owner\<close> is
  there, and the value under \<^verbatim>\<open>['tokenAmount']['uiAmount']\<close>, if those keys are there.
  The amount is a JSON value: a number, a boolean, \<^verbatim>\<open>null\<close>, a string, or an array or
  object (\<open>UiComposite\<close>). \<open>UiNumber r\<close> is a number that \<^verbatim>\<open>float\<close> converts to \<open>r\<close>. A
  JSON integer beyond the range of a float, on which \<^verbatim>\<open>float\<close> raises \<^verbatim>\<open>OverflowError\<close>,
  has no constructor here; the \<^verbatim>\<open>except\<close> clause of the scan does not name that
  exception.
\<close>

datatype ui_amount =
    UiNumber real
  | UiBool bool
  | UiNull
  | UiString string
  | UiComposite

datatype raw_account =
    NoInfo
  | BadShape
  | Info (owner: "string option") (amount: "ui_amount option")

text \<open>
  Python's \<^verbatim>\<open>float(x)\<close>. What \<^verbatim>\<open>float\<close> reads from a string is the parameter
  \<open>float_of_str\<close> (\<open>None\<close>: the string is no number, \<^verbatim>\<open>ValueError\<close>).
  \<^verbatim>\<open>float(None)\<close> and \<^verbatim>\<open>float\<close> of a list or a dict raise \<^verbatim>\<open>TypeError\<close>.
\<close>

fun py_float :: "(string \<Rightarrow> real option) \<Rightarrow> ui_amount \<Rightarrow> py_error + real" where
  "py_float float_of_str (UiNumber r) = Inr r"
| "py_float float_of_str (UiBool b) = Inr (if b then 1 else 0)"
| "py_float float_of_str UiNull = Inl TypeError"
| "py_float float_of_str (UiString s) =
     (case float_of_str s of None \<Rightarrow> Inl ValueError | Some r \<Rightarrow> Inr r)"
| "py_float float_of_str UiComposite = Inl TypeError"

text \<open>The three reads at the head of the \<^verbatim>\<open>try\<close> block, in the order of the source.\<close>

fun account_fields :: "(string \<Rightarrow> real option) \<Rightarrow> raw_account \<Rightarrow> py_error + (string \<times> real)" where
  "account_fields float_of_str NoInfo = Inl KeyError"
| "account_fields float_of_str BadShape = Inl TypeError"
| "account_fields float_of_str (Info None a) = Inl KeyError"
| "account_fields float_of_str (Info (Some w) None) = Inl KeyError"
| "account_fields float_of_str (Info (Some w) (Some a)) =
     (case py_float float_of_str a of Inl e \<Rightarrow> Inl e | Inr x \<Rightarrow> Inr (w, x))"

subsection \<open>\<^verbatim>\<open>get_token_holders\<close>\<close>

text \<open>\<^verbatim>\<open>except (KeyError, TypeError, ValueError)\<close>\<close>

definition caught_in_scan :: "py_error \<Rightarrow> bool" where
  "caught_in_scan e = (e = KeyError \<or> e = TypeError \<or> e = ValueError)"

text \<open>
  The loop over \<^verbatim>\<open>token_accounts\<close>, with the two locals \<^verbatim>\<open>holders\<close> and
  \<^verbatim>\<open>total_supply\<close>. An exception the \<^verbatim>\<open>except\<close> clause does not name leaves the loop.
\<close>

fun scan_accounts ::
  "(string \<Rightarrow> real option) \<Rightarrow> raw_account list \<Rightarrow> holders \<Rightarrow> real \<Rightarrow> py_error + (holders \<times> real)" where
  "scan_accounts float_of_str [] hs total_supply = Inr (hs, total_supply)"
| "scan_accounts float_of_str (account # rest) hs total_supply =
     (case account_fields float_of_str account of
        Inl e \<Rightarrow>
          if caught_in_scan e then scan_accounts float_of_str rest hs total_supply else Inl e
      | Inr (w, token_amount) \<Rightarrow>
          if token_amount = 0 then scan_accounts float_of_str rest hs total_supply
          else if dict_has hs w
            then scan_accounts float_of_str rest (dict_iadd hs w token_amount)
                   (total_supply + token_amount)
            else scan_accounts float_of_str rest (dict_insert hs w token_amount)
                   (total_supply + token_amount))"

text \<open>
  What \<^verbatim>\<open>make_rpc_request\<close> hands to the scan: \<^verbatim>\<open>None\<close> (or another falsy value), a
  dict without the key \<^verbatim>\<open>result\<close>, a dict whose result has no key \<^verbatim>\<open>value\<close>, or a
  dict whose result carries the account list.
\<close>

datatype rpc_response = NoResponse | NoResult | NoValue | Result "raw_account list"

text \<open>
  The function has two shapes of return value: the bare \<^verbatim>\<open>{}\<close> of the early return and
  the pair \<^verbatim>\<open>holders, total_supply\<close> at the end. The read
  \<^verbatim>\<open>response['result']['value']\<close> stands outside the \<^verbatim>\<open>try\<close>: its \<^verbatim>\<open>KeyError\<close> leaves
  the function.
\<close>

datatype scan_return = EmptyDict | HoldersAndSupply holders real

fun get_token_holders :: "(string \<Rightarrow> real option) \<Rightarrow> rpc_response \<Rightarrow> py_error + scan_return" where
  "get_token_holders float_of_str NoResponse = Inr EmptyDict"
| "get_token_holders float_of_str NoResult = Inr EmptyDict"
| "get_token_holders float_of_str NoValue = Inl KeyError"
| "get_token_holders float_of_str (Result token_accounts) =
     (case scan_accounts float_of_str token_accounts [] 0 of
        Inl e \<Rightarrow> Inl e
      | Inr (hs, total_supply) \<Rightarrow> Inr (HoldersAndSupply hs total_supply))"

subsection \<open>\<^verbatim>\<open>filter_eligible_holders\<close>\<close>

record config =
  total_wbtc_per_cycle :: real
  min_token_holdings :: real
  max_token_holdings :: real

definition filter_eligible_holders :: "config \<Rightarrow> holders \<Rightarrow> holders" where
  "filter_eligible_holders cfg hs =
     filter (\<lambda>(w, a). min_token_holdings cfg \<le> a \<and> a \<le> max_token_holdings cfg) hs"

text \<open>The two counts the function logs.\<close>

definition excluded_small :: "config \<Rightarrow> holders \<Rightarrow> nat" where
  "excluded_small cfg hs = length (filter (\<lambda>a. a < min_token_holdings cfg) (map snd hs))"

definition excluded_large :: "config \<Rightarrow> holders \<Rightarrow> nat" where
  "excluded_large cfg hs = length (filter (\<lambda>a. a > max_token_holdings cfg) (map snd hs))"

subsection \<open>\<^verbatim>\<open>calculate_wbtc_distribution\<close>\<close>

record entry =
  wallet :: string
  token_amount :: real
  percentage :: real
  wbtc_amount :: real

text \<open>Python's \<^verbatim>\<open>/\<close> on floats.\<close>

definition py_truediv :: "real \<Rightarrow> real \<Rightarrow> py_error + real" where
  "py_truediv a b = (if b = 0 then Inl ZeroDivisionError else Inr (a / b))"

text \<open>The loop that appends one entry per item of the mapping.\<close>

fun build_distribution :: "real \<Rightarrow> real \<Rightarrow> holders \<Rightarrow> py_error + entry list" where
  "build_distribution budget total_eligible_tokens [] = Inr []"
| "build_distribution budget total_eligible_tokens ((w, a) # rest) =
     (case py_truediv a total_eligible_tokens of
        Inl e \<Rightarrow> Inl e
      | Inr share \<Rightarrow>
         (case py_truediv a total_eligible_tokens of
            Inl e \<Rightarrow> Inl e
          | Inr share' \<Rightarrow>
             (case build_distribution budget total_eligible_tokens rest of
                Inl e \<Rightarrow> Inl e
              | Inr es \<Rightarrow>
                  Inr (\<lparr>wallet = w, token_amount = a, percentage = share * 100,
                        wbtc_amount = share' * budget\<rparr> # es))))"

text \<open>
  \<^verbatim>\<open>list.sort(key=..., reverse=True)\<close>: a stable sort that keeps the original order of
  elements with equal keys also when reversed. CPython reverses the list, sorts it
  ascending and stably, and reverses the result.
\<close>

definition sort_reverse :: "('a \<Rightarrow> real) \<Rightarrow> 'a list \<Rightarrow> 'a list" where
  "sort_reverse k xs = rev (sort_key k (rev xs))"

definition calculate_wbtc_distribution :: "config \<Rightarrow> holders \<Rightarrow> py_error + entry list" where
  "calculate_wbtc_distribution cfg eligible_holders =
     (case build_distribution (total_wbtc_per_cycle cfg) (sum_values eligible_holders)
             eligible_holders of
        Inl e \<Rightarrow> Inl e
      | Inr distribution \<Rightarrow> Inr (sort_reverse token_amount distribution))"

subsection \<open>The transfer loop\<close>

type_synonym attempt = "string \<times> real"

text \<open>
  \<^verbatim>\<open>send_wbtc_airdrop\<close> catches every exception and returns a pair of a flag and a
  signature or an error text. Its answer comes from the ledger: here it is a function of
  the attempts made before, the recipient and the amount.
\<close>

type_synonym transfer = "attempt list \<Rightarrow> string \<Rightarrow> real \<Rightarrow> bool \<times> string"

record tally =
  successful_sends :: nat
  failed_sends :: nat
  total_wbtc_sent :: real

definition tally0 :: tally where
  "tally0 = \<lparr>successful_sends = 0, failed_sends = 0, total_wbtc_sent = 0\<rparr>"

fun send_loop :: "transfer \<Rightarrow> entry list \<Rightarrow> tally \<Rightarrow> attempt list \<Rightarrow> tally \<times> attempt list" where
  "send_loop send [] t trace = (t, trace)"
| "send_loop send (recipient # rest) t trace =
     (let (success, signature_or_error) = send trace (wallet recipient) (wbtc_amount recipient);
          trace' = trace @ [(wallet recipient, wbtc_amount recipient)]
      in if success
         then send_loop send rest
                (t\<lparr>successful_sends := successful_sends t + 1,
                   total_wbtc_sent := total_wbtc_sent t + wbtc_amount recipient\<rparr>) trace'
         else send_loop send rest (t\<lparr>failed_sends := failed_sends t + 1\<rparr>) trace')"

subsection \<open>\<^verbatim>\<open>execute_airdrop_cycle\<close>\<close>

record bot =
  is_running :: bool
  cycle_count :: nat
  total_wbtc_distributed :: real

text \<open>The state after \<^verbatim>\<open>__init__\<close>.\<close>

definition bot0 :: bot where
  "bot0 = \<lparr>is_running = False, cycle_count = 0, total_wbtc_distributed = 0\<rparr>"

text \<open>
  The returned dict: \<^verbatim>\<open>{"success": False, "error": ...}\<close> with a fixed message or with
  the text of a caught exception, or \<^verbatim>\<open>{"success": True, "cycle": ..., ...}\<close>.
\<close>

datatype failure = Message string | Raised py_error

datatype cycle_result =
    Failed failure
  | Succeeded (cycle: nat) (successful: nat) (failed: nat) (wbtc_sent: real)

fun reports_success :: "cycle_result \<Rightarrow> bool" where
  "reports_success (Failed f) = False"
| "reports_success (Succeeded c s f x) = True"

text \<open>
  One cycle. The counter goes up before the \<^verbatim>\<open>try\<close>. Unpacking the bare \<^verbatim>\<open>{}\<close> into
  two names raises \<^verbatim>\<open>ValueError\<close>; every exception inside the \<^verbatim>\<open>try\<close> ends in the
  handler \<^verbatim>\<open>except Exception\<close>.
\<close>

definition execute_airdrop_cycle ::
  "(string \<Rightarrow> real option) \<Rightarrow> transfer \<Rightarrow> config \<Rightarrow> rpc_response \<Rightarrow> bot \<Rightarrow> attempt list
     \<Rightarrow> cycle_result \<times> bot \<times> attempt list" where
  "execute_airdrop_cycle float_of_str send cfg response b trace =
     (let b1 = b\<lparr>cycle_count := cycle_count b + 1\<rparr> in
      case get_token_holders float_of_str response of
        Inl e \<Rightarrow> (Failed (Raised e), b1, trace)
      | Inr EmptyDict \<Rightarrow> (Failed (Raised ValueError), b1, trace)
      | Inr (HoldersAndSupply hs total_supply) \<Rightarrow>
          if hs = [] then (Failed (Message ''No token holders found''), b1, trace)
          else
            let eligible_holders = filter_eligible_holders cfg hs in
            if eligible_holders = []
            then (Failed (Message ''No eligible holders found''), b1, trace)
            else
              (case calculate_wbtc_distribution cfg eligible_holders of
                 Inl e \<Rightarrow> (Failed (Raised e), b1, trace)
               | Inr distribution \<Rightarrow>
                   let (t, trace') = send_loop send distribution tally0 trace in
                   (Succeeded (cycle_count b1) (successful_sends t) (failed_sends t)
                      (total_wbtc_sent t),
                    b1\<lparr>total_wbtc_distributed :=
                         total_wbtc_distributed b1 + total_wbtc_sent t\<rparr>,
                    trace')))"

subsection \<open>\<^verbatim>\<open>run_continuous_airdrop\<close>\<close>

text \<open>
  The \<^verbatim>\<open>while\<close> loop runs one cycle per scan. It ends between two cycles, when
  \<^verbatim>\<open>stop\<close> has cleared the flag or an interrupt arrives during the wait, or inside a
  cycle: \<^verbatim>\<open>KeyboardInterrupt\<close> and \<^verbatim>\<open>CancelledError\<close> are no \<^verbatim>\<open>Exception\<close>, so the
  handler of the cycle lets them through to the \<^verbatim>\<open>finally\<close> block of the run.
  \<open>Interrupted response n\<close>: the interrupt leaves a further cycle, whose scan returned
  \<open>response\<close>, in the pause after its \<open>n\<close>-th transfer (\<open>n = 0\<close>: before the first
  transfer, for example during the scan).
\<close>

datatype ending = Stopped | Interrupted rpc_response nat

text \<open>
  The state in which an interrupt leaves a cycle: the counter has gone up before the
  \<^verbatim>\<open>try\<close>, the transfers before the interrupt have been requested, and the line that adds
  to \<^verbatim>\<open>total_wbtc_distributed\<close> has not been reached. No result is returned.
\<close>

definition interrupt_cycle ::
  "(string \<Rightarrow> real option) \<Rightarrow> transfer \<Rightarrow> config \<Rightarrow> rpc_response \<Rightarrow> nat \<Rightarrow> bot \<Rightarrow> attempt list
     \<Rightarrow> bot \<times> attempt list" where
  "interrupt_cycle float_of_str send cfg response n b trace =
     (let b1 = b\<lparr>cycle_count := cycle_count b + 1\<rparr> in
      case get_token_holders float_of_str response of
        Inl e \<Rightarrow> (b1, trace)
      | Inr EmptyDict \<Rightarrow> (b1, trace)
      | Inr (HoldersAndSupply hs total_supply) \<Rightarrow>
          (case calculate_wbtc_distribution cfg (filter_eligible_holders cfg hs) of
             Inl e \<Rightarrow> (b1, trace)
           | Inr distribution \<Rightarrow>
               (b1, snd (send_loop send (take n distribution) tally0 trace))))"

text \<open>The cycles of a run, in order: whole cycles, one per response, and then the ending.\<close>

fun run_cycles ::
  "(string \<Rightarrow> real option) \<Rightarrow> transfer \<Rightarrow> config \<Rightarrow> rpc_response list \<Rightarrow> ending \<Rightarrow> bot
     \<Rightarrow> attempt list \<Rightarrow> cycle_result list \<times> bot \<times> attempt list" where
  "run_cycles float_of_str send cfg [] Stopped b trace = ([], b, trace)"
| "run_cycles float_of_str send cfg [] (Interrupted response n) b trace =
     (case interrupt_cycle float_of_str send cfg response n b trace of
        (b', trace') \<Rightarrow> ([], b', trace'))"
| "run_cycles float_of_str send cfg (response # rest) ending b trace =
     (case execute_airdrop_cycle float_of_str send cfg response b trace of
        (r, b', trace') \<Rightarrow>
          (case run_cycles float_of_str send cfg rest ending b' trace' of
             (rs, b'', trace'') \<Rightarrow> (r # rs, b'', trace'')))"

text \<open>The last line of the final summary: \<^verbatim>\<open>total_wbtc_distributed / max(cycle_count, 1)\<close>.\<close>

definition average_per_cycle :: "bot \<Rightarrow> real" where
  "average_per_cycle b = total_wbtc_distributed b / real (max (cycle_count b) 1)"

text \<open>The run: the flag is set, the cycles run, and the \<^verbatim>\<open>finally\<close> block clears the flag and
  reports the average.\<close>

definition run_continuous_airdrop ::
  "(string \<Rightarrow> real option) \<Rightarrow> transfer \<Rightarrow> config \<Rightarrow> rpc_response list \<Rightarrow> ending \<Rightarrow> bot
     \<Rightarrow> attempt list \<Rightarrow> cycle_result list \<times> bot \<times> attempt list \<times> real" where
  "run_continuous_airdrop float_of_str send cfg responses ending b trace =
     (case run_cycles float_of_str send cfg responses ending (b\<lparr>is_running := True\<rparr>) trace of
        (rs, b', trace') \<Rightarrow>
          (rs, b'\<lparr>is_running := False\<rparr>, trace', average_per_cycle b'))"

section \<open>Rounded addition\<close>

text \<open>
  Python computes with binary64 floats: the result of an addition is the exact sum
  rounded to the nearest float, a tie going to the even significand. A float with 53
  significant bits in the binade \<open>2^k \<le> |x| < 2^(k+1)\<close> is a multiple of \<open>2^(k-52)\<close>.
  Below \<open>2^(-1022)\<close> the floats have the fixed spacing \<open>2^(-1074)\<close>, which the rounding
  here does not have; a sum of two floats that falls in that range is a float and is not
  rounded. A result from \<open>2^1024\<close> on, which Python replaces by infinity, is outside the
  model.
\<close>

definition round_half_even :: "real \<Rightarrow> int" where
  "round_half_even x =
     (let n = \<lfloor>x\<rfloor>; r = x - of_int n
      in if r < 1/2 then n else if 1/2 < r then n + 1 else if even n then n else n + 1)"

definition binade :: "real \<Rightarrow> int" where
  "binade x = \<lfloor>log 2 \<bar>x\<bar>\<rfloor>"

definition round_double :: "real \<Rightarrow> real" where
  "round_double x =
     (if x = 0 then 0
      else of_int (round_half_even (x / 2 powi (binade x - 52))) * 2 powi (binade x - 52))"

definition float_add :: "real \<Rightarrow> real \<Rightarrow> real" where
  "float_add a b = round_double (a + b)"


subsection \<open>The scan and the transfer loop with the addition as a parameter\<close>





fun send_loop_with ::
  "(real \<Rightarrow> real \<Rightarrow> real) \<Rightarrow> transfer \<Rightarrow> entry list \<Rightarrow> tally \<Rightarrow> attempt list
     \<Rightarrow> tally \<times> attempt list" where
  "send_loop_with add send [] t trace = (t, trace)"
| "send_loop_with add send (recipient # rest) t trace =
     (let (success, signature_or_error) = send trace (wallet recipient) (wbtc_amount recipient);
          trace' = trace @ [(wallet recipient, wbtc_amount recipient)]
      in if success
         then send_loop_with add send rest
                (t\<lparr>successful_sends := successful_sends t + 1,
                   total_wbtc_sent := add (total_wbtc_sent t) (wbtc_amount recipient)\<rparr>) trace'
         else send_loop_with add send rest (t\<lparr>failed_sends := failed_sends t + 1\<rparr>) trace')"

section \<open>Definitions for the statements\<close>

subsection \<open>What the scan counts\<close>

text \<open>
  The record's owner and amount, when the three reads succeed and the amount is not zero:
  the records that reach the two updates at the end of the \<^verbatim>\<open>try\<close> block.
\<close>

definition counted :: "(string \<Rightarrow> real option) \<Rightarrow> raw_account \<Rightarrow> (string \<times> real) option" where
  "counted float_of_str account =
     (case account_fields float_of_str account of
        Inl e \<Rightarrow> None
      | Inr (w, x) \<Rightarrow> if x = 0 then None else Some (w, x))"

definition counted_records :: "(string \<Rightarrow> real option) \<Rightarrow> raw_account list \<Rightarrow> (string \<times> real) list" where
  "counted_records float_of_str accounts = List.map_filter (counted float_of_str) accounts"


text \<open>The update of \<^verbatim>\<open>holders\<close> by one record: the \<^verbatim>\<open>if owner in holders\<close> of the loop body.\<close>

definition dict_add :: "holders \<Rightarrow> string \<times> real \<Rightarrow> holders" where
  "dict_add hs r = (if dict_has hs (fst r) then dict_iadd hs (fst r) (snd r)
                    else dict_insert hs (fst r) (snd r))"





subsection \<open>What the transfer loop does\<close>

text \<open>The entry that the loop of \<^verbatim>\<open>calculate_wbtc_distribution\<close> appends for one item, when the
  divisor is not zero.\<close>

definition entry_of :: "real \<Rightarrow> real \<Rightarrow> string \<times> real \<Rightarrow> entry" where
  "entry_of budget tot p =
     \<lparr>wallet = fst p, token_amount = snd p, percentage = snd p / tot * 100,
      wbtc_amount = snd p / tot * budget\<rparr>"

text \<open>
  The flags the transfer capability returns along the loop, in order, and the requests the
  loop makes. \<open>sent_amounts\<close> adds the amounts of the entries whose flag is set.
\<close>

fun outcomes :: "transfer \<Rightarrow> entry list \<Rightarrow> attempt list \<Rightarrow> bool list" where
  "outcomes send [] trace = []"
| "outcomes send (recipient # rest) trace =
     fst (send trace (wallet recipient) (wbtc_amount recipient))
       # outcomes send rest (trace @ [(wallet recipient, wbtc_amount recipient)])"

definition sent_amounts :: "entry list \<Rightarrow> bool list \<Rightarrow> real" where
  "sent_amounts d os = sum_list (map (\<lambda>(e, ok). if ok then wbtc_amount e else 0) (zip d os))"

definition requests :: "entry list \<Rightarrow> attempt list" where
  "requests d = map (\<lambda>e. (wallet e, wbtc_amount e)) d"

text \<open>
  With the addition as a parameter: the running total of the loop, from a start value,
  and the total of all amounts added in the order of the list.
\<close>

definition sent_with :: "(real \<Rightarrow> real \<Rightarrow> real) \<Rightarrow> real \<Rightarrow> entry list \<Rightarrow> bool list \<Rightarrow> real" where
  "sent_with add s d os =
     foldl (\<lambda>s (e, ok). if ok then add s (wbtc_amount e) else s) s (zip d os)"

definition allocated_with :: "(real \<Rightarrow> real \<Rightarrow> real) \<Rightarrow> entry list \<Rightarrow> real" where
  "allocated_with add d = foldl add 0 (map wbtc_amount d)"

text \<open>The \<^verbatim>\<open>total_wbtc_sent\<close> of a result; a failed cycle has none and adds nothing to the total.\<close>

fun cycle_sent :: "cycle_result \<Rightarrow> real" where
  "cycle_sent (Failed f) = 0"
| "cycle_sent (Succeeded c s f x) = x"

text \<open>The number of cycles a run has started when it ends.\<close>

definition started_cycles :: "rpc_response list \<Rightarrow> ending \<Rightarrow> nat" where
  "started_cycles responses ending =
     (case ending of Stopped \<Rightarrow> length responses | Interrupted response n \<Rightarrow> length responses + 1)"

subsection \<open>Concrete inputs\<close>

text \<open>The defaults of \<^verbatim>\<open>AirdropConfig\<close>, and the same with a minimum of zero.\<close>

definition cfg_default :: config where
  "cfg_default = \<lparr>total_wbtc_per_cycle = 1/5, min_token_holdings = 1000,
                   max_token_holdings = 10000000\<rparr>"

definition cfg_from_zero :: config where
  "cfg_from_zero = \<lparr>total_wbtc_per_cycle = 1/5, min_token_holdings = 0,
                     max_token_holdings = 10000000\<rparr>"

text \<open>Holder mappings and a shorthand for entries.\<close>

definition holders_abc :: holders where
  "holders_abc = [(''A'', 1000), (''B'', 3000), (''C'', 500)]"

definition eligible_ab :: holders where
  "eligible_ab = [(''A'', 1000), (''B'', 3000)]"

definition eligible_tie :: holders where
  "eligible_tie = [(''A'', 1000), (''B'', 3000), (''D'', 1000)]"

definition entry_abd :: "string \<Rightarrow> real \<Rightarrow> real \<Rightarrow> real \<Rightarrow> entry" where
  "entry_abd w a p x = \<lparr>wallet = w, token_amount = a, percentage = p, wbtc_amount = x\<rparr>"

text \<open>
  Account records with a numeric amount, and responses: three wallets of which one is below
  the minimum; one wallet below the minimum; two records of one wallet that cancel; a list
  with records that are skipped.
\<close>

definition acct :: "string \<Rightarrow> real \<Rightarrow> raw_account" where
  "acct w x = Info (Some w) (Some (UiNumber x))"

definition response_abc :: rpc_response where
  "response_abc = Result [acct ''A'' 1000, acct ''B'' 3000, acct ''C'' 500]"

definition response_c :: rpc_response where
  "response_c = Result [acct ''C'' 500]"

definition response_cancel :: rpc_response where
  "response_cancel = Result [acct ''A'' 5, acct ''A'' (- 5)]"


text \<open>A \<^verbatim>\<open>float\<close> that reads no string as a number, and transfer capabilities: one that fails
  for wallet \<open>B\<close> only, one that fails always and one that succeeds always.\<close>

definition no_float_of_str :: "string \<Rightarrow> real option" where
  "no_float_of_str s = None"

definition send_b_fails :: transfer where
  "send_b_fails trace w x =
     (if w = ''B'' then (False, ''Transaction failed'') else (True, ''signature''))"


definition send_ok :: transfer where
  "send_ok trace w x = (True, ''signature'')"


definition double_0_2 :: real where "double_0_2 = 3602879701896397 / 2 ^ 54"






text \<open>
  A distribution list with one amount far below the spacing of the floats near the
  other: the amounts for holders of \<open>2^60\<close> and of 1 token with a budget of 0.2.
\<close>

definition double_tiny :: real where "double_tiny = double_0_2 / 2 ^ 60"

definition distribution_absorb :: "entry list" where
  "distribution_absorb =
     [entry_abd ''A'' (2 ^ 60) 100 double_0_2, entry_abd ''B'' 1 (100 / 2 ^ 60) double_tiny]"

section \<open>Rounding to the nearest float\<close>

text \<open>The binade of a number, and the rounding in a known binade.\<close>

lemma binade_eqI:
  assumes "2 powi k \<le> \<bar>x\<bar>" and "\<bar>x\<bar> < 2 powi (k + 1)"
  shows "binade x = k"
proof -
  have pos: "0 < \<bar>x\<bar>"
    using assms(1) by (smt (verit) zero_less_power_int)
  have "(2::real) powr real_of_int k = 2 powi k"
    by (rule powr_real_of_int') simp_all
  moreover have "(2::real) powr real_of_int (k + 1) = 2 powi (k + 1)"
    by (rule powr_real_of_int') simp_all
  ultimately have "2 powr real_of_int k \<le> \<bar>x\<bar> \<and> \<bar>x\<bar> < 2 powr (real_of_int k + 1)"
    using assms by (simp add: add.commute)
  then show ?thesis
    unfolding binade_def using pos by (simp add: floor_log_eq_powr_iff)
qed

lemma round_double_eqI:
  assumes "2 powi k \<le> \<bar>x\<bar>" and "\<bar>x\<bar> < 2 powi (k + 1)"
  shows "round_double x = of_int (round_half_even (x / 2 powi (k - 52))) * 2 powi (k - 52)"
proof -
  have "x \<noteq> 0" using assms(1) by (smt (verit) zero_less_power_int)
  then show ?thesis by (simp add: round_double_def binade_eqI [OF assms])
qed

text \<open>Rounding to an integer is monotone and odd, and fixes the integers.\<close>

lemma round_half_even_of_int: "round_half_even (of_int n) = n"
  by (simp add: round_half_even_def)

lemma round_half_even_cases:
  "round_half_even x = \<lfloor>x\<rfloor> \<or> round_half_even x = \<lfloor>x\<rfloor> + 1"
  by (simp add: round_half_even_def Let_def)

lemma round_half_even_mono:
  assumes "x \<le> y"
  shows "round_half_even x \<le> round_half_even y"
proof (cases "\<lfloor>x\<rfloor> = \<lfloor>y\<rfloor>")
  case True
  let ?n = "\<lfloor>y\<rfloor>"
  have fr: "x - of_int ?n \<le> y - of_int ?n" using assms by simp
  show ?thesis
    using fr True by (auto simp: round_half_even_def Let_def)
next
  case False
  then have "\<lfloor>x\<rfloor> < \<lfloor>y\<rfloor>" using assms floor_mono [of x y] by linarith
  then have "\<lfloor>x\<rfloor> + 1 \<le> \<lfloor>y\<rfloor>" by simp
  moreover have "round_half_even x \<le> \<lfloor>x\<rfloor> + 1"
    using round_half_even_cases [of x] by auto
  moreover have "\<lfloor>y\<rfloor> \<le> round_half_even y"
    using round_half_even_cases [of y] by auto
  ultimately show ?thesis by linarith
qed

lemma round_half_even_minus: "round_half_even (- x) = - round_half_even x"
proof (cases "x = of_int \<lfloor>x\<rfloor>")
  case True
  then have "round_half_even x = \<lfloor>x\<rfloor>"
    using round_half_even_of_int [of "\<lfloor>x\<rfloor>"] by simp
  moreover have "- x = of_int (- \<lfloor>x\<rfloor>)" using True by simp
  then have "round_half_even (- x) = - \<lfloor>x\<rfloor>"
    using round_half_even_of_int [of "- \<lfloor>x\<rfloor>"] by simp
  ultimately show ?thesis by simp
next
  case False
  let ?n = "\<lfloor>x\<rfloor>"
  have "of_int ?n \<le> x" by (rule of_int_floor_le)
  with False have lt: "of_int ?n < x" by (simp only: less_le not_sym simp_thms)
  have fl: "\<lfloor>- x\<rfloor> = - ?n - 1"
    using lt by (simp add: floor_eq_iff) linarith
  have fr: "- x - of_int \<lfloor>- x\<rfloor> = 1 - (x - of_int ?n)"
    by (simp add: fl)
  show ?thesis
    unfolding round_half_even_def Let_def fr
    by (auto simp: fl)
qed

text \<open>The rounded value stays in the closed binade of its argument.\<close>

lemma binade_bounds:
  assumes "x \<noteq> 0"
  shows "2 powi binade x \<le> \<bar>x\<bar>" and "\<bar>x\<bar> < 2 powi (binade x + 1)"
proof -
  have pos: "0 < \<bar>x\<bar>" using assms by simp
  have "\<lfloor>log 2 \<bar>x\<bar>\<rfloor> = binade x" by (simp add: binade_def)
  then have b: "2 powr real_of_int (binade x) \<le> \<bar>x\<bar>"
      "\<bar>x\<bar> < 2 powr (real_of_int (binade x) + 1)"
    using pos floor_log_eq_powr_iff [of "\<bar>x\<bar>" 2 "binade x"] by simp_all
  have e1: "(2::real) powr real_of_int (binade x) = 2 powi binade x"
    by (rule powr_real_of_int') simp_all
  have "(2::real) powr real_of_int (binade x + 1) = 2 powi (binade x + 1)"
    by (rule powr_real_of_int') simp_all
  then have e2: "(2::real) powr (real_of_int (binade x) + 1) = 2 powi (binade x + 1)"
    by (simp add: add.commute)
  show "2 powi binade x \<le> \<bar>x\<bar>" using b(1) e1 by simp
  show "\<bar>x\<bar> < 2 powi (binade x + 1)" using b(2) e2 by simp
qed

lemma binade_minus: "binade (- x) = binade x"
  by (simp add: binade_def)

lemma binade_mono:
  assumes "0 < x" and "x \<le> y"
  shows "binade x \<le> binade y"
proof -
  have "log 2 x \<le> log 2 y" using assms by simp
  then show ?thesis
    using assms by (simp add: binade_def floor_mono)
qed

lemma two_powi_pos: "0 < (2::real) powi k"
  by (simp add: zero_less_power_int)

lemma two_powi_split: "(2::real) powi (k + j) = 2 powi k * 2 powi j"
  by (simp add: power_int_add)

lemma two_powi_mono: "k \<le> j \<Longrightarrow> (2::real) powi k \<le> 2 powi j"
  by (simp add: power_int_increasing)

lemma significand_bounds:
  assumes "0 < x"
  shows "2 ^ 52 \<le> x / 2 powi (binade x - 52)" and "x / 2 powi (binade x - 52) < 2 ^ 53"
proof -
  let ?k = "binade x"
  have x0: "x \<noteq> 0" using assms by simp
  have lo: "2 powi ?k \<le> x" and hi: "x < 2 powi (?k + 1)"
    using binade_bounds [OF x0] assms by simp_all
  have s1: "(2::real) powi ?k = 2 ^ 52 * 2 powi (?k - 52)"
    using two_powi_split [of 52 "?k - 52"] by simp
  have s2: "(2::real) powi (?k + 1) = 2 ^ 53 * 2 powi (?k - 52)"
    using two_powi_split [of 53 "?k - 52"] by (simp add: add.commute)
  show "2 ^ 52 \<le> x / 2 powi (?k - 52)"
    using lo s1 two_powi_pos [of "?k - 52"] by (simp add: pos_le_divide_eq)
  show "x / 2 powi (?k - 52) < 2 ^ 53"
    using hi s2 two_powi_pos [of "?k - 52"] by (simp add: pos_divide_less_eq)
qed

lemma round_double_pos:
  assumes "0 < x"
  shows "round_double x
           = of_int (round_half_even (x / 2 powi (binade x - 52))) * 2 powi (binade x - 52)"
  using assms by (simp add: round_double_def)

lemma round_significand_bounds:
  assumes "0 < x"
  shows "2 ^ 52 \<le> round_half_even (x / 2 powi (binade x - 52))"
    and "round_half_even (x / 2 powi (binade x - 52)) \<le> 2 ^ 53"
proof -
  let ?z = "x / 2 powi (binade x - 52)"
  have "round_half_even (of_int (2 ^ 52)) \<le> round_half_even ?z"
    using significand_bounds(1) [OF assms] by (intro round_half_even_mono) simp
  then show "2 ^ 52 \<le> round_half_even ?z"
    by (simp only: round_half_even_of_int)
  have "round_half_even ?z \<le> round_half_even (of_int (2 ^ 53))"
    using significand_bounds(2) [OF assms] by (intro round_half_even_mono) simp
  then show "round_half_even ?z \<le> 2 ^ 53"
    by (simp only: round_half_even_of_int)
qed

lemma round_double_bounds:
  assumes "0 < x"
  shows "2 powi binade x \<le> round_double x" and "round_double x \<le> 2 powi (binade x + 1)"
proof -
  let ?k = "binade x"
  let ?m = "round_half_even (x / 2 powi (?k - 52))"
  have s1: "(2::real) powi ?k = 2 ^ 52 * 2 powi (?k - 52)"
    using two_powi_split [of 52 "?k - 52"] by simp
  have s2: "(2::real) powi (?k + 1) = 2 ^ 53 * 2 powi (?k - 52)"
    using two_powi_split [of 53 "?k - 52"] by (simp add: add.commute)
  have "(2::real) ^ 52 \<le> of_int ?m"
    using round_significand_bounds(1) [OF assms] by (metis of_int_le_iff of_int_numeral of_int_power)
  then show "2 powi ?k \<le> round_double x"
    unfolding round_double_pos [OF assms] s1
    using two_powi_pos [of "?k - 52"] by (simp add: mult_right_mono)
  have "of_int ?m \<le> (2::real) ^ 53"
    using round_significand_bounds(2) [OF assms] by (metis of_int_le_iff of_int_numeral of_int_power)
  then show "round_double x \<le> 2 powi (?k + 1)"
    unfolding round_double_pos [OF assms] s2
    using two_powi_pos [of "?k - 52"] by (simp add: mult_right_mono)
qed

lemma round_double_minus: "round_double (- x) = - round_double x"
  by (simp add: round_double_def binade_minus round_half_even_minus)

lemma round_double_pos_pos: "0 < x \<Longrightarrow> 0 < round_double x"
  using round_double_bounds(1) [of x] two_powi_pos [of "binade x"] by linarith

text \<open>Rounding is monotone and idempotent.\<close>

lemma round_double_mono_pos:
  assumes "0 < x" and "x \<le> y"
  shows "round_double x \<le> round_double y"
proof (cases "binade x = binade y")
  case True
  have y: "0 < y" using assms by simp
  let ?u = "2 powi (binade y - 52) :: real"
  have "x / ?u \<le> y / ?u"
    using assms(2) two_powi_pos [of "binade y - 52"] by (simp add: divide_right_mono)
  then have "round_half_even (x / ?u) \<le> round_half_even (y / ?u)"
    by (rule round_half_even_mono)
  then have "real_of_int (round_half_even (x / ?u)) * ?u \<le> real_of_int (round_half_even (y / ?u)) * ?u"
    using two_powi_pos [of "binade y - 52"] by (simp add: mult_right_mono)
  then show ?thesis
    by (simp add: round_double_pos [OF assms(1)] round_double_pos [OF y] True)
next
  case False
  have y: "0 < y" using assms by simp
  have "binade x \<le> binade y" using assms by (rule binade_mono)
  with False have "binade x + 1 \<le> binade y" by simp
  then have "(2::real) powi (binade x + 1) \<le> 2 powi binade y" by (rule two_powi_mono)
  with round_double_bounds(2) [OF assms(1)] round_double_bounds(1) [OF y]
  show ?thesis by linarith
qed

lemma round_double_zero: "round_double 0 = 0"
  by (simp add: round_double_def)

lemma round_double_neg_neg:
  assumes "x < 0"
  shows "round_double x < 0"
proof -
  have "0 < round_double (- x)" using assms by (intro round_double_pos_pos) simp
  moreover have "round_double x = - round_double (- x)"
    using round_double_minus [of "- x"] by simp
  ultimately show ?thesis by linarith
qed

lemma round_double_mono:
  assumes "x \<le> y"
  shows "round_double x \<le> round_double y"
proof -
  consider "0 < x" | "x = 0" | "x < 0" "0 \<le> y" | "x < 0" "y < 0" by linarith
  then show ?thesis
  proof cases
    case 1
    then show ?thesis using assms by (rule round_double_mono_pos)
  next
    case 2
    show ?thesis
    proof (cases "y = 0")
      case True
      with 2 show ?thesis by simp
    next
      case False
      with 2 assms have "0 < y" by simp
      then have "0 < round_double y" by (rule round_double_pos_pos)
      with 2 show ?thesis by (simp add: round_double_zero)
    qed
  next
    case 3
    have "round_double x < 0" using 3(1) by (rule round_double_neg_neg)
    moreover have "0 \<le> round_double y"
    proof (cases "y = 0")
      case True
      then show ?thesis by (simp add: round_double_zero)
    next
      case False
      with 3 have "0 < y" by simp
      then have "0 < round_double y" by (rule round_double_pos_pos)
      then show ?thesis by simp
    qed
    ultimately show ?thesis by linarith
  next
    case 4
    have "0 < - y" using 4 by simp
    moreover have "- y \<le> - x" using assms by simp
    ultimately have "round_double (- y) \<le> round_double (- x)" by (rule round_double_mono_pos)
    then show ?thesis by (simp add: round_double_minus)
  qed
qed

lemma round_double_idem_pos:
  assumes "0 < x"
  shows "round_double (round_double x) = round_double x"
proof -
  let ?k = "binade x"
  let ?u = "2 powi (?k - 52) :: real"
  let ?m = "round_half_even (x / ?u)"
  let ?v = "round_double x"
  have u: "0 < ?u" by (rule two_powi_pos)
  have v: "?v = of_int ?m * ?u" by (rule round_double_pos [OF assms])
  have vpos: "0 < ?v" using assms by (rule round_double_pos_pos)
  have m_lo: "2 ^ 52 \<le> ?m" and m_hi: "?m \<le> 2 ^ 53"
    using round_significand_bounds [OF assms] by simp_all
  have s1: "(2::real) powi ?k = 2 ^ 52 * ?u"
    using two_powi_split [of 52 "?k - 52"] by simp
  have s2: "(2::real) powi (?k + 1) = 2 ^ 53 * ?u"
    using two_powi_split [of 53 "?k - 52"] by (simp add: add.commute)
  show ?thesis
  proof (cases "?m = 2 ^ 53")
    case False
    with m_hi have "?m < 2 ^ 53" by simp
    then have "of_int ?m < (2::real) ^ 53"
      by (metis of_int_less_iff of_int_numeral of_int_power)
    then have hi: "\<bar>?v\<bar> < 2 powi (?k + 1)"
      using vpos u unfolding s2 by (simp add: v)
    have lo: "2 powi ?k \<le> \<bar>?v\<bar>"
      using round_double_bounds(1) [OF assms] vpos by simp
    have "round_double ?v = of_int (round_half_even (?v / ?u)) * ?u"
      by (rule round_double_eqI [OF lo hi])
    also have "?v / ?u = of_int ?m" using u by (simp add: v)
    finally show ?thesis by (simp only: round_half_even_of_int v)
  next
    case True
    let ?w = "2 powi (?k - 51) :: real"
    have e: "?k + 1 - 52 = ?k - 51" by simp
    have w: "0 < ?w" by (rule two_powi_pos)
    have v2: "?v = 2 powi (?k + 1)" unfolding s2 by (simp add: v True)
    have s3: "(2::real) powi (?k + 1) = 2 ^ 52 * ?w"
      using two_powi_split [of 52 "?k - 51"] by (simp add: add.commute)
    have lo: "2 powi (?k + 1) \<le> \<bar>?v\<bar>" by (simp add: v2)
    have "(2::real) powi (?k + 1) < 2 powi (?k + 1 + 1)"
      by (simp add: power_int_strict_increasing)
    then have hi: "\<bar>?v\<bar> < 2 powi (?k + 1 + 1)" by (simp add: v2)
    have "round_double ?v = of_int (round_half_even (?v / ?w)) * ?w"
      using round_double_eqI [OF lo hi] unfolding e .
    also have "?v / ?w = of_int (2 ^ 52)" using w unfolding v2 s3 by simp
    finally have "round_double ?v = of_int (2 ^ 52) * ?w"
      by (simp only: round_half_even_of_int)
    also have "\<dots> = 2 powi (?k + 1)" unfolding s3 by simp
    finally show ?thesis by (simp add: v2)
  qed
qed

lemma round_double_idem: "round_double (round_double x) = round_double x"
proof -
  consider "0 < x" | "x = 0" | "x < 0" by linarith
  then show ?thesis
  proof cases
    case 1
    then show ?thesis by (rule round_double_idem_pos)
  next
    case 2
    then show ?thesis by (simp add: round_double_zero)
  next
    case 3
    then have "0 < - x" by simp
    then have "round_double (round_double (- x)) = round_double (- x)"
      by (rule round_double_idem_pos)
    then show ?thesis by (simp add: round_double_minus)
  qed
qed

text \<open>Float addition is monotone, and adding a non-negative amount to a float does not decrease it.\<close>

lemma float_add_mono: "a \<le> b \<Longrightarrow> float_add a x \<le> float_add b x"
  unfolding float_add_def by (rule round_double_mono) simp

lemma float_add_grow:
  assumes "0 \<le> x"
  shows "float_add a b \<le> float_add (float_add a b) x"
proof -
  have "round_double (round_double (a + b)) \<le> round_double (round_double (a + b) + x)"
    using assms by (intro round_double_mono) simp
  then show ?thesis by (simp add: float_add_def round_double_idem)
qed

lemma float_add_zero: "0 \<le> x \<Longrightarrow> 0 \<le> float_add 0 x"
  using round_double_mono [of 0 x] by (simp add: float_add_def round_double_zero)






lemma float_add_0_2: "float_add 0 double_0_2 = double_0_2"
  unfolding float_add_def double_0_2_def
  by (subst round_double_eqI [of "-3"]) (simp_all add: round_half_even_def)

lemma float_add_2_tiny: "float_add double_0_2 double_tiny = double_0_2"
  unfolding float_add_def double_0_2_def double_tiny_def
  by (subst round_double_eqI [of "-3"]) (simp_all add: round_half_even_def)




lemma double_tiny_pos: "0 < double_tiny" "0 < double_0_2"
  by (simp_all add: double_tiny_def double_0_2_def)

section \<open>The holder scan\<close>

lemma py_float_caught: "py_float p a = Inl e \<Longrightarrow> caught_in_scan e"
  by (cases a) (auto simp: caught_in_scan_def split: option.splits)

lemma account_fields_caught: "account_fields p a = Inl e \<Longrightarrow> caught_in_scan e"
  by (cases "(p, a)" rule: account_fields.cases)
     (auto simp: caught_in_scan_def split: sum.splits dest: py_float_caught)

text \<open>The loop never raises: it folds the counted records into the mapping and adds their amounts.\<close>

lemma scan_accounts_eq:
  "scan_accounts p accounts hs t =
     Inr (foldl dict_add hs (counted_records p accounts),
          t + sum_list (map snd (counted_records p accounts)))"
proof (induction accounts arbitrary: hs t)
  case Nil
  then show ?case by (simp add: counted_records_def map_filter_simps)
next
  case (Cons a accounts)
  show ?case
  proof (cases "account_fields p a")
    case (Inl e)
    then have "caught_in_scan e" by (rule account_fields_caught)
    with Inl show ?thesis
      by (simp add: Cons.IH counted_records_def counted_def map_filter_simps)
  next
    case (Inr r)
    obtain w x where r: "r = (w, x)" by (cases r)
    show ?thesis
      using Inr r
      by (simp add: Cons.IH counted_records_def counted_def map_filter_simps dict_add_def
          add.assoc)
  qed
qed

lemma keys_dict_iadd: "map fst (dict_iadd hs w x) = map fst hs"
  by (induction hs) auto

lemma keys_dict_add:
  "map fst (dict_add hs r) = (if fst r \<in> set (map fst hs) then map fst hs else map fst hs @ [fst r])"
  by (simp add: dict_add_def dict_has_def dict_insert_def keys_dict_iadd)


lemma keyset_dict_add: "fst ` set (dict_add hs r) = insert (fst r) (fst ` set hs)"
  using keys_dict_add [of hs r, THEN arg_cong, of set] by (auto split: if_splits)







lemma keys_aggregate:
  "fst ` set (foldl dict_add hs recs) = fst ` set hs \<union> fst ` set recs"
  by (induction recs arbitrary: hs) (simp_all add: keyset_dict_add)





















section \<open>The eligibility filter\<close>

lemma filter_partition_count:
  assumes "lo \<le> (hi::real)"
  shows "length (filter (\<lambda>a. a < lo) xs) + length (filter (\<lambda>a. a > hi) xs)
         + length (filter (\<lambda>a. lo \<le> a \<and> a \<le> hi) xs) = length xs"
  using assms by (induction xs) auto

lemma length_filter_eligible:
  "length (filter_eligible_holders cfg hs)
     = length (filter (\<lambda>a. min_token_holdings cfg \<le> a \<and> a \<le> max_token_holdings cfg) (map snd hs))"
  by (induction hs) (auto simp: filter_eligible_holders_def)

text \<open>
  C6. With bounds \<open>min \<le> max\<close>, an item is in the eligible mapping exactly when it is in
  the holder mapping and its balance lies between the bounds, both of them included; and
  the count of balances below the minimum, the count above the maximum and the number of
  eligible holders add up to the number of holders.
\<close>

theorem filter_eligible_holders_inclusive_partition:
  assumes "min_token_holdings cfg \<le> max_token_holdings cfg"
  shows "((w, a) \<in> set (filter_eligible_holders cfg hs) \<longleftrightarrow>
            (w, a) \<in> set hs \<and> min_token_holdings cfg \<le> a \<and> a \<le> max_token_holdings cfg)
       \<and> excluded_small cfg hs + excluded_large cfg hs
            + length (filter_eligible_holders cfg hs) = length hs"
proof
  show "(w, a) \<in> set (filter_eligible_holders cfg hs) \<longleftrightarrow>
            (w, a) \<in> set hs \<and> min_token_holdings cfg \<le> a \<and> a \<le> max_token_holdings cfg"
    by (auto simp: filter_eligible_holders_def)
  show "excluded_small cfg hs + excluded_large cfg hs
            + length (filter_eligible_holders cfg hs) = length hs"
    using filter_partition_count [OF assms, of "map snd hs"]
    by (simp add: excluded_small_def excluded_large_def length_filter_eligible)
qed

text \<open>An instance with the default bounds: a balance equal to the minimum is eligible.\<close>

theorem filter_eligible_holders_inclusive_partition_witness:
  "min_token_holdings cfg_default \<le> max_token_holdings cfg_default
   \<and> (''A'', 1000) \<in> set (filter_eligible_holders cfg_default holders_abc)
   \<and> (''C'', 500) \<notin> set (filter_eligible_holders cfg_default holders_abc)
   \<and> excluded_small cfg_default holders_abc + excluded_large cfg_default holders_abc
        + length (filter_eligible_holders cfg_default holders_abc) = length holders_abc"
proof -
  have h: "min_token_holdings cfg_default \<le> max_token_holdings cfg_default"
    by (simp add: cfg_default_def)
  show ?thesis
    using h filter_eligible_holders_inclusive_partition [OF h, of "''A''" 1000 holders_abc]
      filter_eligible_holders_inclusive_partition [OF h, of "''C''" 500 holders_abc]
    by (simp add: cfg_default_def holders_abc_def)
qed

section \<open>The distribution\<close>

lemma sort_reverse_stable:
  "filter (\<lambda>y. k y = a) (sort_reverse k xs) = filter (\<lambda>y. k y = a) xs"
proof -
  have "filter (\<lambda>y. k y = a) (sort_reverse k xs)
          = rev (filter (\<lambda>y. k y = a) (sort_key k (rev xs)))"
    by (simp add: sort_reverse_def rev_filter)
  also have "\<dots> = rev (filter (\<lambda>y. k y = a) (rev xs))"
    by (simp only: sort_key_stable)
  also have "\<dots> = filter (\<lambda>y. k y = a) xs"
    by (simp add: rev_filter)
  finally show ?thesis .
qed

lemma sort_reverse_descending: "sorted (rev (map k (sort_reverse k xs)))"
  by (simp add: sort_reverse_def rev_map)

lemma mset_sort_reverse: "mset (sort_reverse k xs) = mset xs"
  by (simp add: sort_reverse_def)

lemma set_sort_reverse: "set (sort_reverse k xs) = set xs"
  by (simp add: sort_reverse_def)

lemma sum_list_sort_reverse:
  "sum_list (map f (sort_reverse k xs)) = sum_list (map (f::'a \<Rightarrow> real) xs)"
proof -
  have "mset (map f (sort_reverse k xs)) = mset (map f xs)"
    by (simp add: mset_sort_reverse)
  then show ?thesis by (metis sum_mset_sum_list)
qed

lemma build_distribution_nonzero:
  "tot \<noteq> 0 \<Longrightarrow> build_distribution budget tot hs = Inr (map (entry_of budget tot) hs)"
  by (induction hs) (auto simp: py_truediv_def entry_of_def)

lemma build_distribution_zero:
  "hs \<noteq> [] \<Longrightarrow> build_distribution budget 0 hs = Inl ZeroDivisionError"
  by (cases hs) (auto simp: py_truediv_def)

lemma build_distribution_Inr:
  "build_distribution budget tot hs = Inr es \<Longrightarrow> es = map (entry_of budget tot) hs"
  by (cases "tot = 0"; cases hs) (auto simp: build_distribution_nonzero build_distribution_zero)

lemma calculate_Inr:
  "calculate_wbtc_distribution cfg hs = Inr d \<Longrightarrow>
     d = sort_reverse token_amount (map (entry_of (total_wbtc_per_cycle cfg) (sum_values hs)) hs)"
  by (auto simp: calculate_wbtc_distribution_def split: sum.splits dest: build_distribution_Inr)

lemma calculate_nonzero:
  "sum_values hs \<noteq> 0 \<Longrightarrow> calculate_wbtc_distribution cfg hs =
     Inr (sort_reverse token_amount (map (entry_of (total_wbtc_per_cycle cfg) (sum_values hs)) hs))"
  by (simp add: calculate_wbtc_distribution_def build_distribution_nonzero)

lemma calculate_zero:
  "hs \<noteq> [] \<Longrightarrow> sum_values hs = 0 \<Longrightarrow> calculate_wbtc_distribution cfg hs = Inl ZeroDivisionError"
  by (simp add: calculate_wbtc_distribution_def build_distribution_zero)

lemma filter_map_entry:
  "map wallet (filter (\<lambda>e. token_amount e = a) (map (entry_of b t) hs))
     = map fst (filter (\<lambda>(w, x). x = a) hs)"
  by (induction hs) (auto simp: entry_of_def)

lemma items_of_entries:
  "map (\<lambda>e. (wallet e, token_amount e)) (map (entry_of b t) hs) = hs"
  by (induction hs) (auto simp: entry_of_def)

lemma sum_wbtc_entries:
  "sum_list (map wbtc_amount (map (entry_of b t) hs)) = sum_values hs / t * b"
  by (induction hs) (auto simp: entry_of_def sum_values_def algebra_simps add_divide_distrib)

lemma sum_percentage_entries:
  "sum_list (map percentage (map (entry_of b t) hs)) = sum_values hs / t * 100"
  by (induction hs) (auto simp: entry_of_def sum_values_def algebra_simps add_divide_distrib)

text \<open>
  C8. The distribution list is in descending order of \<open>token_amount\<close>, and the entries
  of any one amount stand in the order in which the eligible mapping lists their wallets.
\<close>

theorem calculate_wbtc_distribution_sorted_stable:
  assumes "calculate_wbtc_distribution cfg eligible_holders = Inr distribution"
  shows "sorted (rev (map token_amount distribution))
       \<and> map wallet (filter (\<lambda>e. token_amount e = a) distribution)
           = map fst (filter (\<lambda>(w, x). x = a) eligible_holders)"
  using calculate_Inr [OF assms]
  by (simp add: sort_reverse_descending sort_reverse_stable filter_map_entry)

text \<open>An instance with two wallets of the same amount.\<close>

theorem calculate_wbtc_distribution_sorted_stable_witness:
  "calculate_wbtc_distribution cfg_default eligible_tie =
     Inr [entry_abd ''B'' 3000 60 (3/25), entry_abd ''A'' 1000 20 (1/25), entry_abd ''D'' 1000 20 (1/25)]
   \<and> sorted (rev (map token_amount
        [entry_abd ''B'' 3000 60 (3/25), entry_abd ''A'' 1000 20 (1/25), entry_abd ''D'' 1000 20 (1/25)]))
   \<and> map wallet (filter (\<lambda>e. token_amount e = 1000)
        [entry_abd ''B'' 3000 60 (3/25), entry_abd ''A'' 1000 20 (1/25), entry_abd ''D'' 1000 20 (1/25)])
      = [''A'', ''D'']"
proof -
  have h: "calculate_wbtc_distribution cfg_default eligible_tie =
     Inr [entry_abd ''B'' 3000 60 (3/25), entry_abd ''A'' 1000 20 (1/25), entry_abd ''D'' 1000 20 (1/25)]"
    by (simp add: calculate_wbtc_distribution_def eligible_tie_def cfg_default_def sum_values_def
      py_truediv_def sort_reverse_def entry_abd_def)
  show ?thesis
    using h calculate_wbtc_distribution_sorted_stable [OF h, of 1000]
    by (simp add: eligible_tie_def)
qed

text \<open>
  C2. For a non-empty eligible mapping with a positive total, the calculation returns a
  list with one entry per item of the mapping, each with percentage
  \<open>token_amount / total * 100\<close> and amount \<open>token_amount / total * budget\<close>; the amounts
  add up to the budget and the percentages to 100. Amounts are exact reals here, so the
  sums are exact.
\<close>

theorem calculate_wbtc_distribution_proportional:
  assumes "eligible_holders \<noteq> []" and "0 < sum_values eligible_holders"
  shows "\<exists>distribution.
      calculate_wbtc_distribution cfg eligible_holders = Inr distribution
    \<and> (\<forall>e \<in> set distribution.
          percentage e = token_amount e / sum_values eligible_holders * 100
        \<and> wbtc_amount e
            = token_amount e / sum_values eligible_holders * total_wbtc_per_cycle cfg)
    \<and> mset (map (\<lambda>e. (wallet e, token_amount e)) distribution) = mset eligible_holders
    \<and> sum_list (map wbtc_amount distribution) = total_wbtc_per_cycle cfg
    \<and> sum_list (map percentage distribution) = 100"
proof -
  let ?T = "sum_values eligible_holders"
  let ?es = "map (entry_of (total_wbtc_per_cycle cfg) ?T) eligible_holders"
  let ?d = "sort_reverse token_amount ?es"
  have nz: "?T \<noteq> 0" using assms(2) by simp
  have c: "calculate_wbtc_distribution cfg eligible_holders = Inr ?d"
    by (rule calculate_nonzero [OF nz])
  have each: "\<forall>e \<in> set ?d. percentage e = token_amount e / ?T * 100
        \<and> wbtc_amount e = token_amount e / ?T * total_wbtc_per_cycle cfg"
    by (auto simp: set_sort_reverse entry_of_def)
  have "mset (map (\<lambda>e. (wallet e, token_amount e)) ?d)
          = mset (map (\<lambda>e. (wallet e, token_amount e)) ?es)"
    by (simp add: mset_sort_reverse del: map_map)
  then have items: "mset (map (\<lambda>e. (wallet e, token_amount e)) ?d) = mset eligible_holders"
    by (simp only: items_of_entries)
  have s1: "sum_list (map wbtc_amount ?d) = total_wbtc_per_cycle cfg"
    using nz by (simp add: sum_list_sort_reverse sum_wbtc_entries del: map_map)
  have s2: "sum_list (map percentage ?d) = 100"
    using nz by (simp add: sum_list_sort_reverse sum_percentage_entries del: map_map)
  from c each items s1 s2 show ?thesis by blast
qed

text \<open>The instance of the specification: balances 1000 and 3000, budget 0.2.\<close>

theorem calculate_wbtc_distribution_proportional_witness:
  "eligible_ab \<noteq> [] \<and> 0 < sum_values eligible_ab
   \<and> calculate_wbtc_distribution cfg_default eligible_ab
       = Inr [entry_abd ''B'' 3000 75 (3/20), entry_abd ''A'' 1000 25 (1/20)]
   \<and> (\<exists>distribution.
      calculate_wbtc_distribution cfg_default eligible_ab = Inr distribution
    \<and> (\<forall>e \<in> set distribution.
          percentage e = token_amount e / sum_values eligible_ab * 100
        \<and> wbtc_amount e
            = token_amount e / sum_values eligible_ab * total_wbtc_per_cycle cfg_default)
    \<and> mset (map (\<lambda>e. (wallet e, token_amount e)) distribution) = mset eligible_ab
    \<and> sum_list (map wbtc_amount distribution) = total_wbtc_per_cycle cfg_default
    \<and> sum_list (map percentage distribution) = 100)"
proof -
  have h1: "eligible_ab \<noteq> []" by (simp add: eligible_ab_def)
  have h2: "0 < sum_values eligible_ab" by (simp add: eligible_ab_def sum_values_def)
  have c: "calculate_wbtc_distribution cfg_default eligible_ab
       = Inr [entry_abd ''B'' 3000 75 (3/20), entry_abd ''A'' 1000 25 (1/20)]"
    by (simp add: calculate_wbtc_distribution_def eligible_ab_def cfg_default_def sum_values_def
      py_truediv_def sort_reverse_def entry_abd_def)
  show ?thesis
    using h1 h2 c calculate_wbtc_distribution_proportional [OF h1 h2, of cfg_default]
    by blast
qed

section \<open>The transfer loop\<close>

lemma length_outcomes: "length (outcomes send d trace) = length d"
  by (induction d arbitrary: trace) auto

lemma send_loop_eq:
  "send_loop send d t trace =
     (\<lparr>successful_sends = successful_sends t + length (filter id (outcomes send d trace)),
       failed_sends = failed_sends t + length (filter Not (outcomes send d trace)),
       total_wbtc_sent = total_wbtc_sent t + sent_amounts d (outcomes send d trace)\<rparr>,
      trace @ requests d)"
proof (induction d arbitrary: t trace)
  case Nil
  then show ?case by (simp add: sent_amounts_def requests_def)
next
  case (Cons r d)
  obtain ok msg where s: "send trace (wallet r) (wbtc_amount r) = (ok, msg)"
    by (cases "send trace (wallet r) (wbtc_amount r)")
  show ?case
    by (cases ok) (simp_all add: s Cons.IH sent_amounts_def requests_def Let_def)
qed


lemma sent_amounts_le:
  "\<forall>e \<in> set d. 0 \<le> wbtc_amount e \<Longrightarrow> sent_amounts d os \<le> sum_list (map wbtc_amount d)"
proof (induction d arbitrary: os)
  case Nil
  then show ?case by (simp add: sent_amounts_def)
next
  case (Cons e d)
  show ?case
  proof (cases os)
    case Nil
    have "0 \<le> sum_list (map wbtc_amount (e # d))"
      using Cons.prems by (intro sum_list_nonneg) auto
    with Nil show ?thesis by (simp add: sent_amounts_def)
  next
    case (Cons ok os')
    have "sent_amounts d os' \<le> sum_list (map wbtc_amount d)"
      using Cons.IH Cons.prems by simp
    moreover have "0 \<le> wbtc_amount e" using Cons.prems by simp
    ultimately show ?thesis using Cons by (simp add: sent_amounts_def)
  qed
qed

lemma sent_amounts_all:
  "length os = length d \<Longrightarrow> \<forall>ok \<in> set os. ok \<Longrightarrow> sent_amounts d os = sum_list (map wbtc_amount d)"
proof (induction d arbitrary: os)
  case Nil
  then show ?case by (simp add: sent_amounts_def)
next
  case (Cons e d)
  then obtain ok os' where os: "os = ok # os'" by (cases os) auto
  with Cons.prems have "sent_amounts d os' = sum_list (map wbtc_amount d)"
    by (intro Cons.IH) auto
  with os Cons.prems show ?case by (simp add: sent_amounts_def)
qed

lemma sent_amounts_eq_all:
  "length os = length d \<Longrightarrow> \<forall>e \<in> set d. 0 < wbtc_amount e \<Longrightarrow>
     sent_amounts d os = sum_list (map wbtc_amount d) \<Longrightarrow> \<forall>ok \<in> set os. ok"
proof (induction d arbitrary: os)
  case Nil
  then show ?case by simp
next
  case (Cons e d)
  then obtain ok os' where os: "os = ok # os'" by (cases os) auto
  have le: "sent_amounts d os' \<le> sum_list (map wbtc_amount d)"
    using Cons.prems(2) by (intro sent_amounts_le) auto
  have pos: "0 < wbtc_amount e" using Cons.prems(2) by simp
  have eq: "(if ok then wbtc_amount e else 0) + sent_amounts d os'
              = wbtc_amount e + sum_list (map wbtc_amount d)"
    using Cons.prems(3) os by (simp add: sent_amounts_def)
  have ok: ok
  proof (rule ccontr)
    assume "\<not> ok"
    with eq have "sent_amounts d os' = wbtc_amount e + sum_list (map wbtc_amount d)" by simp
    with le pos show False by simp
  qed
  with eq have "sent_amounts d os' = sum_list (map wbtc_amount d)" by simp
  with Cons.prems os have "\<forall>ok \<in> set os'. ok" by (intro Cons.IH) auto
  with ok os show ?case by simp
qed

text \<open>The loop with the addition as a parameter: with exact addition it is the loop of the cycle.\<close>

lemma send_loop_with_plus: "send_loop_with (+) send d t trace = send_loop send d t trace"
proof (induction d arbitrary: t trace)
  case Nil
  then show ?case by simp
next
  case (Cons r d)
  obtain ok msg where s: "send trace (wallet r) (wbtc_amount r) = (ok, msg)"
    by (cases "send trace (wallet r) (wbtc_amount r)")
  show ?case
    by (cases ok) (simp_all add: s Cons.IH Let_def)
qed

lemma send_loop_with_sent:
  "total_wbtc_sent (fst (send_loop_with add send d t trace))
     = sent_with add (total_wbtc_sent t) d (outcomes send d trace)"
proof (induction d arbitrary: t trace)
  case Nil
  then show ?case by (simp add: sent_with_def)
next
  case (Cons r d)
  obtain ok msg where s: "send trace (wallet r) (wbtc_amount r) = (ok, msg)"
    by (cases "send trace (wallet r) (wbtc_amount r)")
  show ?case
    by (cases ok) (simp_all add: s Cons.IH sent_with_def Let_def)
qed

lemma sent_with_le:
  assumes mono: "\<forall>a b x. a \<le> b \<longrightarrow> add a x \<le> add b x"
    and grow: "\<forall>a b x. 0 \<le> x \<longrightarrow> add a b \<le> add (add a b) x"
    and zero: "\<forall>x. 0 \<le> x \<longrightarrow> 0 \<le> add 0 x"
  shows "length os = length d \<Longrightarrow> \<forall>e \<in> set d. 0 \<le> wbtc_amount e \<Longrightarrow> s \<le> a
      \<Longrightarrow> a = 0 \<or> (\<exists>u v. a = add u v)
      \<Longrightarrow> sent_with add s d os \<le> foldl add a (map wbtc_amount d)"
proof (induction d arbitrary: os s a)
  case Nil
  then show ?case by (simp add: sent_with_def)
next
  case (Cons e d)
  then obtain ok os' where os: "os = ok # os'" by (cases os) auto
  have x: "0 \<le> wbtc_amount e" using Cons.prems(2) by simp
  have up: "a \<le> add a (wbtc_amount e)"
    using Cons.prems(4) x grow zero by auto
  let ?s' = "if ok then add s (wbtc_amount e) else s"
  have "?s' \<le> add a (wbtc_amount e)"
    using Cons.prems(3) mono up by (auto intro: order_trans)
  moreover have "length os' = length d" using Cons.prems(1) os by simp
  moreover have "\<forall>e \<in> set d. 0 \<le> wbtc_amount e" using Cons.prems(2) by simp
  ultimately have "sent_with add ?s' d os' \<le> foldl add (add a (wbtc_amount e)) (map wbtc_amount d)"
    by (intro Cons.IH) auto
  then show ?case by (simp add: os sent_with_def)
qed

lemma sent_with_all:
  "length os = length d \<Longrightarrow> \<forall>ok \<in> set os. ok
     \<Longrightarrow> sent_with add s d os = foldl add s (map wbtc_amount d)"
proof (induction d arbitrary: os s)
  case Nil
  then show ?case by (simp add: sent_with_def)
next
  case (Cons e d)
  then obtain ok os' where os: "os = ok # os'" by (cases os) auto
  with Cons.prems have "sent_with add (add s (wbtc_amount e)) d os'
      = foldl add (add s (wbtc_amount e)) (map wbtc_amount d)"
    by (intro Cons.IH) auto
  with os Cons.prems show ?case by (simp add: sent_with_def)
qed

lemma foldl_plus_sum_list: "foldl (+) s xs = s + sum_list (xs :: real list)"
  by (induction xs arbitrary: s) simp_all

lemma sum_list_positive:
  "xs \<noteq> [] \<Longrightarrow> \<forall>x \<in> set xs. 0 < x \<Longrightarrow> 0 < sum_list (xs :: real list)"
proof (induction xs)
  case Nil
  then show ?case by simp
next
  case (Cons x xs)
  have "0 \<le> sum_list xs" using Cons.prems(2) by (intro sum_list_nonneg) (simp add: less_imp_le)
  moreover have "0 < x" using Cons.prems(2) by simp
  ultimately show ?case by simp
qed

lemma calculate_positive:
  assumes "0 < total_wbtc_per_cycle cfg" and "\<forall>(w, a) \<in> set eligible_holders. 0 < a"
    and "calculate_wbtc_distribution cfg eligible_holders = Inr d"
  shows "\<forall>e \<in> set d. 0 < wbtc_amount e"
proof (cases "eligible_holders = []")
  case True
  with assms(3) show ?thesis
    by (simp add: calculate_wbtc_distribution_def sort_reverse_def)
next
  case False
  have "\<forall>a \<in> set (map snd eligible_holders). 0 < a" using assms(2) by auto
  moreover have "map snd eligible_holders \<noteq> []" using False by simp
  ultimately have T: "0 < sum_values eligible_holders"
    unfolding sum_values_def by (intro sum_list_positive) auto
  show ?thesis
  proof
    fix e assume "e \<in> set d"
    then obtain w a where "(w, a) \<in> set eligible_holders"
      and e: "e = entry_of (total_wbtc_per_cycle cfg) (sum_values eligible_holders) (w, a)"
      using calculate_Inr [OF assms(3)] by (auto simp: set_sort_reverse)
    then have "0 < a" using assms(2) by auto
    with T assms(1) show "0 < wbtc_amount e" by (simp add: e entry_of_def)
  qed
qed

text \<open>
  C5, as stated, fails in float arithmetic. Both amounts of the list are positive, the
  transfer to B fails, and still the amount sent equals the amount allocated: adding the
  small amount to 0.2 gives 0.2 again.
\<close>

theorem send_loop_sent_le_allocated_counterexample:
  "send_loop_with float_add send_b_fails distribution_absorb tally0 []
      = (\<lparr>successful_sends = 1, failed_sends = 1, total_wbtc_sent = double_0_2\<rparr>,
         [(''A'', double_0_2), (''B'', double_tiny)])
   \<and> allocated_with float_add distribution_absorb = double_0_2
   \<and> 0 < double_0_2 \<and> 0 < double_tiny"
  by (simp add: distribution_absorb_def entry_abd_def send_b_fails_def tally0_def
      allocated_with_def float_add_0_2 float_add_2_tiny double_tiny_pos)

text \<open>
  C5, amended. The amount sent is the sum of the amounts of the entries whose transfer
  succeeded, added in the order of the list. When no entry has a negative amount it is at
  most the amount allocated, the sum of all amounts in that order, and it is equal to it
  when every transfer succeeded: both hold with float addition and with exact addition.
  That the two are equal only when every transfer succeeded holds with exact addition
  and positive amounts. The amounts that the calculation returns for positive balances
  and a positive budget are positive.
\<close>

theorem send_loop_sent_le_allocated:
  "send_loop_with (+) send d t trace = send_loop send d t trace
   \<and> total_wbtc_sent (fst (send_loop_with float_add send d tally0 trace))
       = sent_with float_add 0 d (outcomes send d trace)
   \<and> ((\<forall>e \<in> set d. 0 \<le> wbtc_amount e)
      \<longrightarrow> total_wbtc_sent (fst (send_loop_with float_add send d tally0 trace))
            \<le> allocated_with float_add d)
   \<and> ((\<forall>ok \<in> set (outcomes send d trace). ok)
      \<longrightarrow> total_wbtc_sent (fst (send_loop_with float_add send d tally0 trace))
            = allocated_with float_add d)
   \<and> total_wbtc_sent (fst (send_loop send d tally0 trace))
       = sent_amounts d (outcomes send d trace)
   \<and> ((\<forall>e \<in> set d. 0 \<le> wbtc_amount e)
      \<longrightarrow> total_wbtc_sent (fst (send_loop send d tally0 trace))
            \<le> sum_list (map wbtc_amount d))
   \<and> ((\<forall>e \<in> set d. 0 < wbtc_amount e) \<longrightarrow>
        (total_wbtc_sent (fst (send_loop send d tally0 trace)) = sum_list (map wbtc_amount d)
           \<longleftrightarrow> (\<forall>ok \<in> set (outcomes send d trace). ok)))
   \<and> (0 < total_wbtc_per_cycle cfg \<and> (\<forall>(w, a) \<in> set eligible_holders. 0 < a)
        \<and> calculate_wbtc_distribution cfg eligible_holders = Inr d
      \<longrightarrow> (\<forall>e \<in> set d. 0 < wbtc_amount e))"
proof -
  let ?os = "outcomes send d trace"
  have len: "length ?os = length d" by (rule length_outcomes)
  have sw: "total_wbtc_sent (fst (send_loop_with float_add send d tally0 trace))
              = sent_with float_add 0 d ?os"
    by (simp add: send_loop_with_sent tally0_def)
  have m: "\<forall>a b x. a \<le> b \<longrightarrow> float_add a x \<le> float_add b x"
    using float_add_mono by blast
  have g: "\<forall>a b x. 0 \<le> x \<longrightarrow> float_add a b \<le> float_add (float_add a b) x"
    using float_add_grow by blast
  have z: "\<forall>x. 0 \<le> x \<longrightarrow> 0 \<le> float_add 0 x"
    using float_add_zero by blast
  have le: "(\<forall>e \<in> set d. 0 \<le> wbtc_amount e)
      \<longrightarrow> sent_with float_add 0 d ?os \<le> allocated_with float_add d"
    unfolding allocated_with_def using sent_with_le [OF m g z len, of 0 0] by blast
  have all: "(\<forall>ok \<in> set ?os. ok) \<longrightarrow> sent_with float_add 0 d ?os = allocated_with float_add d"
    unfolding allocated_with_def using sent_with_all [OF len] by blast
  have sent: "total_wbtc_sent (fst (send_loop send d tally0 trace)) = sent_amounts d ?os"
    by (simp add: send_loop_eq tally0_def)
  have le': "(\<forall>e \<in> set d. 0 \<le> wbtc_amount e)
      \<longrightarrow> sent_amounts d ?os \<le> sum_list (map wbtc_amount d)"
    using sent_amounts_le by blast
  have a1: "(\<forall>ok \<in> set ?os. ok) \<Longrightarrow> sent_amounts d ?os = sum_list (map wbtc_amount d)"
    by (rule sent_amounts_all) (simp_all add: length_outcomes)
  have a2: "(\<forall>e \<in> set d. 0 < wbtc_amount e) \<Longrightarrow>
      sent_amounts d ?os = sum_list (map wbtc_amount d) \<Longrightarrow> (\<forall>ok \<in> set ?os. ok)"
    by (rule sent_amounts_eq_all) (simp_all add: length_outcomes)
  have iff: "(\<forall>e \<in> set d. 0 < wbtc_amount e) \<longrightarrow>
        (sent_amounts d ?os = sum_list (map wbtc_amount d) \<longleftrightarrow> (\<forall>ok \<in> set ?os. ok))"
    using a1 a2 by blast
  have ctx: "0 < total_wbtc_per_cycle cfg \<and> (\<forall>(w, a) \<in> set eligible_holders. 0 < a)
        \<and> calculate_wbtc_distribution cfg eligible_holders = Inr d
      \<longrightarrow> (\<forall>e \<in> set d. 0 < wbtc_amount e)"
    using calculate_positive by blast
  show ?thesis
    unfolding sent using send_loop_with_plus sw le [folded sw] all [folded sw] le' iff ctx
    by blast
qed

text \<open>Instances: one of two transfers fails; all transfers succeed; the list of the small amount.\<close>

theorem send_loop_sent_le_allocated_witness:
  "0 < wbtc_amount (entry_abd ''B'' 3000 75 (3/20))
   \<and> 0 < wbtc_amount (entry_abd ''A'' 1000 25 (1/20))
   \<and> outcomes send_b_fails [entry_abd ''B'' 3000 75 (3/20), entry_abd ''A'' 1000 25 (1/20)] []
       = [False, True]
   \<and> total_wbtc_sent (fst (send_loop send_b_fails
        [entry_abd ''B'' 3000 75 (3/20), entry_abd ''A'' 1000 25 (1/20)] tally0 [])) = 1/20
   \<and> total_wbtc_sent (fst (send_loop send_b_fails
        [entry_abd ''B'' 3000 75 (3/20), entry_abd ''A'' 1000 25 (1/20)] tally0 []))
       \<le> sum_list (map wbtc_amount
            [entry_abd ''B'' 3000 75 (3/20), entry_abd ''A'' 1000 25 (1/20)])
   \<and> total_wbtc_sent (fst (send_loop send_b_fails
        [entry_abd ''B'' 3000 75 (3/20), entry_abd ''A'' 1000 25 (1/20)] tally0 []))
       \<noteq> sum_list (map wbtc_amount
            [entry_abd ''B'' 3000 75 (3/20), entry_abd ''A'' 1000 25 (1/20)])
   \<and> outcomes send_ok distribution_absorb [] = [True, True]
   \<and> total_wbtc_sent (fst (send_loop_with float_add send_ok distribution_absorb tally0 []))
       = allocated_with float_add distribution_absorb
   \<and> total_wbtc_sent (fst (send_loop_with float_add send_b_fails distribution_absorb tally0 []))
       \<le> allocated_with float_add distribution_absorb
   \<and> 0 < total_wbtc_per_cycle cfg_default
   \<and> calculate_wbtc_distribution cfg_default eligible_ab
       = Inr [entry_abd ''B'' 3000 75 (3/20), entry_abd ''A'' 1000 25 (1/20)]"
proof -
  let ?d = "[entry_abd ''B'' 3000 75 (3/20), entry_abd ''A'' 1000 25 (1/20)]"
  have h: "\<forall>e \<in> set ?d. 0 < wbtc_amount e"
    by (simp add: entry_abd_def)
  have h0: "\<forall>e \<in> set ?d. 0 \<le> wbtc_amount e"
    by (simp add: entry_abd_def)
  have o: "outcomes send_b_fails ?d [] = [False, True]"
    by (simp add: entry_abd_def send_b_fails_def)
  have v: "sent_amounts ?d [False, True] = 1/20"
    by (simp add: sent_amounts_def entry_abd_def)
  have ha: "\<forall>e \<in> set distribution_absorb. 0 \<le> wbtc_amount e"
    using double_tiny_pos by (simp add: distribution_absorb_def entry_abd_def)
  have oa: "outcomes send_ok distribution_absorb [] = [True, True]"
    by (simp add: distribution_absorb_def send_ok_def)
  have c1: "0 < total_wbtc_per_cycle cfg_default" by (simp add: cfg_default_def)
  have c2: "\<forall>(w, a) \<in> set eligible_ab. 0 < a" by (simp add: eligible_ab_def)
  have calc_ab: "calculate_wbtc_distribution cfg_default eligible_ab = Inr ?d"
    by (simp add: calculate_wbtc_distribution_def eligible_ab_def cfg_default_def sum_values_def
        py_truediv_def sort_reverse_def entry_abd_def)
  note t1 = send_loop_sent_le_allocated
              [of send_b_fails ?d tally0 "[]" cfg_default eligible_ab]
  note t2 = send_loop_sent_le_allocated
              [of send_ok distribution_absorb tally0 "[]" cfg_default eligible_ab]
  note t3 = send_loop_sent_le_allocated
              [of send_b_fails distribution_absorb tally0 "[]" cfg_default eligible_ab]
  have pos: "\<forall>e \<in> set ?d. 0 < wbtc_amount e"
    using t1 c1 c2 calc_ab by blast
  have s: "total_wbtc_sent (fst (send_loop send_b_fails ?d tally0 [])) = 1/20"
    using t1 by (simp only: o v)
  have le: "total_wbtc_sent (fst (send_loop send_b_fails ?d tally0 []))
              \<le> sum_list (map wbtc_amount ?d)"
    using t1 h0 by blast
  have "\<not> (\<forall>ok \<in> set (outcomes send_b_fails ?d []). ok)"
    by (simp only: o) simp
  then have ne: "total_wbtc_sent (fst (send_loop send_b_fails ?d tally0 []))
              \<noteq> sum_list (map wbtc_amount ?d)"
    using t1 pos by blast
  have "\<forall>ok \<in> set (outcomes send_ok distribution_absorb []). ok"
    by (simp only: oa) simp
  then have eqf: "total_wbtc_sent (fst (send_loop_with float_add send_ok distribution_absorb tally0 []))
       = allocated_with float_add distribution_absorb"
    using t2 by blast
  have lef: "total_wbtc_sent (fst (send_loop_with float_add send_b_fails distribution_absorb tally0 []))
       \<le> allocated_with float_add distribution_absorb"
    using t3 ha by blast
  have p1: "0 < wbtc_amount (entry_abd ''B'' 3000 75 (3/20))"
    and p2: "0 < wbtc_amount (entry_abd ''A'' 1000 25 (1/20))"
    using pos by simp_all
  from p1 p2 o s le ne oa eqf lef c1 calc_ab show ?thesis by blast
qed

section \<open>One cycle\<close>

lemma scan_abc:
  "get_token_holders no_float_of_str response_abc = Inr (HoldersAndSupply holders_abc 4500)"
  by (simp add: response_abc_def acct_def holders_abc_def dict_has_def dict_insert_def)

lemma filter_abc: "filter_eligible_holders cfg_default holders_abc = eligible_ab"
  by (simp add: filter_eligible_holders_def cfg_default_def holders_abc_def eligible_ab_def)

lemma calc_ab: "calculate_wbtc_distribution cfg_default eligible_ab
       = Inr [entry_abd ''B'' 3000 75 (3/20), entry_abd ''A'' 1000 25 (1/20)]"
    by (simp add: calculate_wbtc_distribution_def eligible_ab_def cfg_default_def sum_values_def
      py_truediv_def sort_reverse_def entry_abd_def)

lemma execute_at_execution_stage:
  assumes "get_token_holders p response = Inr (HoldersAndSupply hs ts)"
    and "filter_eligible_holders cfg hs \<noteq> []"
    and "calculate_wbtc_distribution cfg (filter_eligible_holders cfg hs) = Inr d"
  shows "execute_airdrop_cycle p send cfg response b trace =
      (Succeeded (cycle_count b + 1) (length (filter id (outcomes send d trace)))
         (length (filter Not (outcomes send d trace)))
         (sent_amounts d (outcomes send d trace)),
       b\<lparr>cycle_count := cycle_count b + 1,
         total_wbtc_distributed :=
           total_wbtc_distributed b + sent_amounts d (outcomes send d trace)\<rparr>,
       trace @ requests d)"
proof -
  have "hs \<noteq> []" using assms(2) by (auto simp: filter_eligible_holders_def)
  then show ?thesis
    using assms by (simp add: execute_airdrop_cycle_def send_loop_eq tally0_def)
qed

lemma cycle_abc_any:
  "execute_airdrop_cycle no_float_of_str send_b_fails cfg_default response_abc b trace
     = (Succeeded (cycle_count b + 1) 1 1 (1/20),
        b\<lparr>cycle_count := cycle_count b + 1,
          total_wbtc_distributed := total_wbtc_distributed b + 1/20\<rparr>,
        trace @ [(''B'', 3/20), (''A'', 1/20)])"
proof -
  let ?d = "[entry_abd ''B'' 3000 75 (3/20), entry_abd ''A'' 1000 25 (1/20)]"
  have h2: "filter_eligible_holders cfg_default holders_abc \<noteq> []"
    by (simp add: filter_abc eligible_ab_def)
  have h3: "calculate_wbtc_distribution cfg_default
              (filter_eligible_holders cfg_default holders_abc) = Inr ?d"
    by (simp add: filter_abc calc_ab)
  have o: "outcomes send_b_fails ?d trace = [False, True]"
    by (simp add: entry_abd_def send_b_fails_def)
  show ?thesis
    by (simp only: execute_at_execution_stage [OF scan_abc h2 h3] o)
       (simp add: sent_amounts_def requests_def entry_abd_def)
qed


lemma cycle_no_response:
  "execute_airdrop_cycle p send cfg NoResponse b trace
     = (Failed (Raised ValueError), b\<lparr>cycle_count := cycle_count b + 1\<rparr>, trace)"
  by (simp add: execute_airdrop_cycle_def)



text \<open>
  C4. When the scan returns a mapping of which no holder is eligible, and so also when
  the mapping is empty, the cycle returns a failure with the message of that case, the
  counter goes up by one, the distributed total is unchanged and no transfer is
  requested.
\<close>

theorem execute_airdrop_cycle_empty_eligible:
  assumes "get_token_holders p response = Inr (HoldersAndSupply hs ts)"
    and "filter_eligible_holders cfg hs = []"
  shows "execute_airdrop_cycle p send cfg response b trace =
      (Failed (Message (if hs = [] then ''No token holders found''
                        else ''No eligible holders found'')),
       b\<lparr>cycle_count := cycle_count b + 1\<rparr>, trace)
    \<and> \<not> reports_success (fst (execute_airdrop_cycle p send cfg response b trace))"
  using assms by (simp add: execute_airdrop_cycle_def)

text \<open>An instance where the only holder is below the minimum.\<close>

theorem execute_airdrop_cycle_empty_eligible_witness:
  "get_token_holders no_float_of_str response_c = Inr (HoldersAndSupply [(''C'', 500)] 500)
   \<and> filter_eligible_holders cfg_default [(''C'', 500)] = []
   \<and> execute_airdrop_cycle no_float_of_str send_b_fails cfg_default response_c bot0 [] =
      (Failed (Message ''No eligible holders found''),
       \<lparr>is_running = False, cycle_count = 1, total_wbtc_distributed = 0\<rparr>, [])"
proof -
  have h1: "get_token_holders no_float_of_str response_c
              = Inr (HoldersAndSupply [(''C'', 500)] 500)"
    by (simp add: response_c_def acct_def dict_has_def dict_insert_def)
  have h2: "filter_eligible_holders cfg_default [(''C'', 500)] = []"
    by (simp add: filter_eligible_holders_def cfg_default_def)
  show ?thesis
    using h1 h2
      execute_airdrop_cycle_empty_eligible [OF h1 h2, of send_b_fails bot0 "[]"]
    by (simp add: bot0_def)
qed

text \<open>
  C1, as stated, fails: there is no guard and no error of its own for a total of zero.
  The calculation divides by the total, and the division raises
  \<^verbatim>\<open>ZeroDivisionError\<close>.
\<close>

theorem calculate_wbtc_distribution_zero_total_counterexample:
  "calculate_wbtc_distribution cfg_from_zero [(''A'', 0)] = Inl ZeroDivisionError
   \<and> py_truediv 0 (sum_values [(''A'', 0)]) = Inl ZeroDivisionError"
  by (simp add: calculate_wbtc_distribution_def sum_values_def py_truediv_def)

text \<open>
  C1, amended. For a non-empty eligible mapping whose balances add up to zero the
  calculation raises the \<^verbatim>\<open>ZeroDivisionError\<close> of its first division, and a cycle that
  comes to such a mapping returns a failure with that exception, without a transfer
  request.
\<close>

theorem calculate_wbtc_distribution_zero_total:
  "(eligible_holders \<noteq> [] \<and> sum_values eligible_holders = 0
      \<longrightarrow> calculate_wbtc_distribution cfg eligible_holders = Inl ZeroDivisionError)
   \<and> (get_token_holders p response = Inr (HoldersAndSupply hs ts)
        \<and> filter_eligible_holders cfg hs \<noteq> []
        \<and> sum_values (filter_eligible_holders cfg hs) = 0
      \<longrightarrow> execute_airdrop_cycle p send cfg response b trace
            = (Failed (Raised ZeroDivisionError), b\<lparr>cycle_count := cycle_count b + 1\<rparr>, trace))"
proof (intro conjI impI)
  assume "eligible_holders \<noteq> [] \<and> sum_values eligible_holders = 0"
  then show "calculate_wbtc_distribution cfg eligible_holders = Inl ZeroDivisionError"
    by (simp add: calculate_zero)
next
  assume a: "get_token_holders p response = Inr (HoldersAndSupply hs ts)
        \<and> filter_eligible_holders cfg hs \<noteq> []
        \<and> sum_values (filter_eligible_holders cfg hs) = 0"
  then have "hs \<noteq> []" by (auto simp: filter_eligible_holders_def)
  moreover have "calculate_wbtc_distribution cfg (filter_eligible_holders cfg hs)
                   = Inl ZeroDivisionError"
    using a by (simp add: calculate_zero)
  ultimately show "execute_airdrop_cycle p send cfg response b trace
            = (Failed (Raised ZeroDivisionError), b\<lparr>cycle_count := cycle_count b + 1\<rparr>, trace)"
    using a by (simp add: execute_airdrop_cycle_def)
qed

text \<open>An instance: two records of one wallet cancel, and the minimum is zero.\<close>

theorem calculate_wbtc_distribution_zero_total_witness:
  "get_token_holders no_float_of_str response_cancel = Inr (HoldersAndSupply [(''A'', 0)] 0)
   \<and> filter_eligible_holders cfg_from_zero [(''A'', 0)] = [(''A'', 0)]
   \<and> sum_values [(''A'', 0)] = 0
   \<and> calculate_wbtc_distribution cfg_from_zero [(''A'', 0)] = Inl ZeroDivisionError
   \<and> execute_airdrop_cycle no_float_of_str send_b_fails cfg_from_zero response_cancel bot0 []
       = (Failed (Raised ZeroDivisionError),
          \<lparr>is_running = False, cycle_count = 1, total_wbtc_distributed = 0\<rparr>, [])"
proof -
  have h1: "get_token_holders no_float_of_str response_cancel
              = Inr (HoldersAndSupply [(''A'', 0)] 0)"
    by (simp add: response_cancel_def acct_def dict_has_def dict_insert_def)
  have h2: "filter_eligible_holders cfg_from_zero [(''A'', 0)] = [(''A'', 0)]"
    by (simp add: filter_eligible_holders_def cfg_from_zero_def)
  have h3: "sum_values [(''A'', 0)] = 0"
    by (simp add: sum_values_def)
  show ?thesis
    using h1 h2 h3
      calculate_wbtc_distribution_zero_total
        [of "[(''A'', 0)]" cfg_from_zero no_float_of_str response_cancel "[(''A'', 0)]" 0
            send_b_fails bot0 "[]"]
    by (simp add: bot0_def)
qed

text \<open>
  C10. When the request fails or the response has no result, the scan returns the bare
  empty dict, whereas on a list of accounts it returns a pair. The cycle cannot unpack the
  dict into two names: it fails with the \<^verbatim>\<open>ValueError\<close> caught by its handler, not
  with the message \<^verbatim>\<open>No token holders found\<close>, and requests no transfer.
\<close>

theorem get_token_holders_failed_scan:
  "(response = NoResponse \<or> response = NoResult \<longrightarrow>
       get_token_holders p response = Inr EmptyDict
     \<and> execute_airdrop_cycle p send cfg response b trace
         = (Failed (Raised ValueError), b\<lparr>cycle_count := cycle_count b + 1\<rparr>, trace)
     \<and> fst (execute_airdrop_cycle p send cfg response b trace)
         \<noteq> Failed (Message ''No token holders found''))
   \<and> (\<exists>hs ts. get_token_holders p (Result accounts) = Inr (HoldersAndSupply hs ts))"
  by (auto simp: execute_airdrop_cycle_def scan_accounts_eq)

text \<open>Both kinds of failed scan, and for comparison a scan that returns an empty account list.\<close>

theorem get_token_holders_failed_scan_witness:
  "get_token_holders no_float_of_str NoResponse = Inr EmptyDict
   \<and> execute_airdrop_cycle no_float_of_str send_b_fails cfg_default NoResponse bot0 []
       = (Failed (Raised ValueError),
          \<lparr>is_running = False, cycle_count = 1, total_wbtc_distributed = 0\<rparr>, [])
   \<and> execute_airdrop_cycle no_float_of_str send_b_fails cfg_default NoResult bot0 []
       = (Failed (Raised ValueError),
          \<lparr>is_running = False, cycle_count = 1, total_wbtc_distributed = 0\<rparr>, [])
   \<and> execute_airdrop_cycle no_float_of_str send_b_fails cfg_default (Result []) bot0 []
       = (Failed (Message ''No token holders found''),
          \<lparr>is_running = False, cycle_count = 1, total_wbtc_distributed = 0\<rparr>, [])"
proof -
  have r: "execute_airdrop_cycle no_float_of_str send_b_fails cfg_default (Result []) bot0 []
       = (Failed (Message ''No token holders found''),
          \<lparr>is_running = False, cycle_count = 1, total_wbtc_distributed = 0\<rparr>, [])"
    by (simp add: execute_airdrop_cycle_def bot0_def)
  show ?thesis
    using r
      get_token_holders_failed_scan
        [of NoResponse no_float_of_str send_b_fails cfg_default bot0 "[]" "[]"]
      get_token_holders_failed_scan
        [of NoResult no_float_of_str send_b_fails cfg_default bot0 "[]" "[]"]
    by (simp add: bot0_def)
qed

section \<open>Repeated cycles\<close>

lemma execute_airdrop_cycle_stats:
  "execute_airdrop_cycle p send cfg response b trace = (r, b', trace') \<Longrightarrow>
     cycle_count b' = cycle_count b + 1
   \<and> total_wbtc_distributed b' = total_wbtc_distributed b + cycle_sent r
   \<and> is_running b' = is_running b"
  by (auto simp: execute_airdrop_cycle_def Let_def
           split: sum.splits scan_return.splits if_splits prod.splits)

lemma interrupt_cycle_stats:
  "interrupt_cycle p send cfg response n b trace = (b', trace') \<Longrightarrow>
     cycle_count b' = cycle_count b + 1
   \<and> total_wbtc_distributed b' = total_wbtc_distributed b
   \<and> is_running b' = is_running b"
  by (auto simp: interrupt_cycle_def Let_def split: sum.splits scan_return.splits)

lemma run_cycles_stats:
  "run_cycles p send cfg responses ending b trace = (rs, b', trace') \<Longrightarrow>
     length rs = length responses
   \<and> cycle_count b' = cycle_count b + started_cycles responses ending
   \<and> total_wbtc_distributed b' = total_wbtc_distributed b + sum_list (map cycle_sent rs)
   \<and> is_running b' = is_running b"
proof (induction responses arbitrary: b trace rs b' trace')
  case Nil
  show ?case
  proof (cases ending)
    case Stopped
    with Nil show ?thesis by (simp add: started_cycles_def)
  next
    case (Interrupted response n)
    obtain b1 trace1 where i: "interrupt_cycle p send cfg response n b trace = (b1, trace1)"
      by (cases "interrupt_cycle p send cfg response n b trace")
    with Nil Interrupted have "rs = []" "b' = b1" by simp_all
    with interrupt_cycle_stats [OF i] Interrupted show ?thesis
      by (simp add: started_cycles_def)
  qed
next
  case (Cons response responses)
  obtain r b1 trace1 where c: "execute_airdrop_cycle p send cfg response b trace = (r, b1, trace1)"
    by (cases "execute_airdrop_cycle p send cfg response b trace") auto
  obtain rs1 b2 trace2 where
    t: "run_cycles p send cfg responses ending b1 trace1 = (rs1, b2, trace2)"
    by (cases "run_cycles p send cfg responses ending b1 trace1") auto
  from Cons.prems c t have e: "rs = r # rs1" "b' = b2" by simp_all
  from execute_airdrop_cycle_stats [OF c] Cons.IH [OF t] e
  show ?case by (simp add: started_cycles_def split: ending.splits)
qed

lemma interrupt_abc:
  "interrupt_cycle no_float_of_str send_b_fails cfg_default response_abc (Suc 0) b trace
     = (b\<lparr>cycle_count := cycle_count b + 1\<rparr>, trace @ [(''B'', 3/20)])"
proof -
  have ne: "eligible_ab \<noteq> []" by (simp add: eligible_ab_def)
  show ?thesis
    by (simp add: interrupt_cycle_def scan_abc filter_abc calc_ab entry_abd_def
        send_b_fails_def tally0_def Let_def)
qed

lemma run3_stopped:
  "run_cycles no_float_of_str send_b_fails cfg_default
       [response_abc, NoResponse, response_abc] Stopped b []
     = ([Succeeded (cycle_count b + 1) 1 1 (1/20), Failed (Raised ValueError),
         Succeeded (cycle_count b + 3) 1 1 (1/20)],
        b\<lparr>cycle_count := cycle_count b + 3,
          total_wbtc_distributed := total_wbtc_distributed b + 1/10\<rparr>,
        [(''B'', 3/20), (''A'', 1/20), (''B'', 3/20), (''A'', 1/20)])"
  by (simp add: cycle_abc_any cycle_no_response)

lemma run1_interrupted:
  "run_cycles no_float_of_str send_b_fails cfg_default [response_abc]
       (Interrupted response_abc 1) b []
     = ([Succeeded (cycle_count b + 1) 1 1 (1/20)],
        b\<lparr>cycle_count := cycle_count b + 2,
          total_wbtc_distributed := total_wbtc_distributed b + 1/20\<rparr>,
        [(''B'', 3/20), (''A'', 1/20), (''B'', 3/20)])"
  by (simp add: cycle_abc_any interrupt_abc)

text \<open>
  C9, as stated, fails when an interrupt ends the run inside a cycle: after one whole
  cycle that sent 0.05 and an interrupt in the second cycle, the counter is 2 and the
  reported average is 0.025 and not 0.05.
\<close>

theorem run_continuous_airdrop_statistics_counterexample:
  "run_continuous_airdrop no_float_of_str send_b_fails cfg_default [response_abc]
       (Interrupted response_abc 1) bot0 []
     = ([Succeeded 1 1 1 (1/20)],
        \<lparr>is_running = False, cycle_count = 2, total_wbtc_distributed = 1/20\<rparr>,
        [(''B'', 3/20), (''A'', 1/20), (''B'', 3/20)], 1/40)
   \<and> (1/40 :: real) \<noteq> sum_list (map cycle_sent [Succeeded 1 1 1 (1/20)]) / real (length [response_abc])"
  by (simp only: run_continuous_airdrop_def run1_interrupted)
     (simp add: bot0_def average_per_cycle_def)

text \<open>
  C9, amended. A run from the initial state with N whole cycles returns their N results;
  the distributed total is the sum of the amounts sent by these cycles (a failed cycle
  sends nothing), and the average of the final summary is the total divided by
  \<open>max cycle_count 1\<close>. When the run ends between two cycles the counter is N, and for
  \<open>N \<ge> 1\<close> the average is the sum divided by N. When an interrupt ends it inside a
  further cycle the counter is N + 1, and the average is the sum divided by N + 1.
\<close>

theorem run_continuous_airdrop_statistics:
  assumes "run_continuous_airdrop p send cfg responses ending bot0 trace
             = (rs, b', trace', average)"
  shows "length rs = length responses
       \<and> total_wbtc_distributed b' = sum_list (map cycle_sent rs)
       \<and> average = total_wbtc_distributed b' / real (max (cycle_count b') 1)
       \<and> (ending = Stopped \<longrightarrow>
            cycle_count b' = length responses
          \<and> (1 \<le> length responses \<longrightarrow>
               average = sum_list (map cycle_sent rs) / real (length responses)))
       \<and> (\<forall>response n. ending = Interrupted response n \<longrightarrow>
            cycle_count b' = length responses + 1
          \<and> average = sum_list (map cycle_sent rs) / real (length responses + 1))"
proof -
  obtain b1 where
    r: "run_cycles p send cfg responses ending (bot0\<lparr>is_running := True\<rparr>) trace
          = (rs, b1, trace')"
    and b': "b' = b1\<lparr>is_running := False\<rparr>" and a: "average = average_per_cycle b1"
    using assms by (auto simp: run_continuous_airdrop_def split: prod.splits)
  from run_cycles_stats [OF r]
  have s: "length rs = length responses"
    "cycle_count b1 = started_cycles responses ending"
    "total_wbtc_distributed b1 = sum_list (map cycle_sent rs)"
    by (simp_all add: bot0_def)
  have m: "1 \<le> length responses \<Longrightarrow> max (length responses) 1 = length responses"
    by simp
  have m': "max (length responses + 1) 1 = length responses + 1"
    by simp
  show ?thesis
    using s m m' by (auto simp: b' a average_per_cycle_def started_cycles_def)
qed

text \<open>A run of three cycles of which the second fails, and a run of one cycle and an interrupt in
  the second.\<close>

theorem run_continuous_airdrop_statistics_witness:
  "run_continuous_airdrop no_float_of_str send_b_fails cfg_default
       [response_abc, NoResponse, response_abc] Stopped bot0 []
     = ([Succeeded 1 1 1 (1/20), Failed (Raised ValueError), Succeeded 3 1 1 (1/20)],
        \<lparr>is_running = False, cycle_count = 3, total_wbtc_distributed = 1/10\<rparr>,
        [(''B'', 3/20), (''A'', 1/20), (''B'', 3/20), (''A'', 1/20)], 1/30)
   \<and> (1::nat) \<le> length [response_abc, NoResponse, response_abc]
   \<and> (1/30 :: real) = sum_list (map cycle_sent
        [Succeeded 1 1 1 (1/20), Failed (Raised ValueError), Succeeded 3 1 1 (1/20)])
        / real (length [response_abc, NoResponse, response_abc])
   \<and> run_continuous_airdrop no_float_of_str send_b_fails cfg_default [response_abc]
       (Interrupted response_abc 1) bot0 []
     = ([Succeeded 1 1 1 (1/20)],
        \<lparr>is_running = False, cycle_count = 2, total_wbtc_distributed = 1/20\<rparr>,
        [(''B'', 3/20), (''A'', 1/20), (''B'', 3/20)], 1/40)
   \<and> (1/40 :: real) = sum_list (map cycle_sent [Succeeded 1 1 1 (1/20)])
        / real (length [response_abc] + 1)"
proof -
  have h: "run_continuous_airdrop no_float_of_str send_b_fails cfg_default
       [response_abc, NoResponse, response_abc] Stopped bot0 []
     = ([Succeeded 1 1 1 (1/20), Failed (Raised ValueError), Succeeded 3 1 1 (1/20)],
        \<lparr>is_running = False, cycle_count = 3, total_wbtc_distributed = 1/10\<rparr>,
        [(''B'', 3/20), (''A'', 1/20), (''B'', 3/20), (''A'', 1/20)], 1/30)"
    by (simp only: run_continuous_airdrop_def run3_stopped)
       (simp add: bot0_def average_per_cycle_def)
  have n: "(1::nat) \<le> length [response_abc, NoResponse, response_abc]" by simp
  from run_continuous_airdrop_statistics [OF h] n
  have a: "(1/30 :: real) = sum_list (map cycle_sent
        [Succeeded 1 1 1 (1/20), Failed (Raised ValueError), Succeeded 3 1 1 (1/20)])
        / real (length [response_abc, NoResponse, response_abc])"
    by blast
  have i: "run_continuous_airdrop no_float_of_str send_b_fails cfg_default [response_abc]
       (Interrupted response_abc 1) bot0 []
     = ([Succeeded 1 1 1 (1/20)],
        \<lparr>is_running = False, cycle_count = 2, total_wbtc_distributed = 1/20\<rparr>,
        [(''B'', 3/20), (''A'', 1/20), (''B'', 3/20)], 1/40)"
    by (simp only: run_continuous_airdrop_def run1_interrupted)
       (simp add: bot0_def average_per_cycle_def)
  from run_continuous_airdrop_statistics [OF i]
  have b: "(1/40 :: real) = sum_list (map cycle_sent [Succeeded 1 1 1 (1/20)])
        / real (length [response_abc] + 1)"
    by blast
  from h n a i b show ?thesis by blast
qed

end
